theory Spec2Isabelle
  imports Main "HOL-Library.Multiset"
begin

section \<open>JavaScript strings\<close>

text \<open>
  Strings are byte strings; \<open>toLowerCase\<close> lowers the ASCII letters A to Z and leaves
  every other character alone. \<open>includesStr s sub\<close> is \<^verbatim>\<open>s.includes(sub)\<close>: the
  argument occurs as a contiguous run of characters.
\<close>

definition lowerChar :: "char \<Rightarrow> char" where
  "lowerChar c =
     (case map_of (zip ''ABCDEFGHIJKLMNOPQRSTUVWXYZ'' ''abcdefghijklmnopqrstuvwxyz'') c of
        Some l \<Rightarrow> l
      | None \<Rightarrow> c)"

definition toLowerCase :: "string \<Rightarrow> string" where
  "toLowerCase s = map lowerChar s"

definition startsWith :: "string \<Rightarrow> string \<Rightarrow> bool" where
  "startsWith s p = (take (length p) s = p)"

fun includesStr :: "string \<Rightarrow> string \<Rightarrow> bool" where
  "includesStr [] sub = (sub = [])"
| "includesStr (c # cs) sub = (startsWith (c # cs) sub \<or> includesStr cs sub)"

text \<open>
  A text field of a raw record is absent (\<open>undefined\<close> or \<open>null\<close>) or a string.
  \<open>strOr v d\<close> is the JavaScript \<^verbatim>\<open>v || d\<close> for such a field: the empty string is
  falsy, as the absent value is.
\<close>

fun strOr :: "string option \<Rightarrow> string \<Rightarrow> string" where
  "strOr None d = d"
| "strOr (Some s) d = (if s = [] then d else s)"

section \<open>Beds24 normalizer: source classification\<close>

text \<open>The fields of a raw Beds24 record that \<open>Beds24API.determineSource\<close> reads.\<close>

record rawBooking =
  referer :: "string option"
  channel :: "string option"
  source :: "string option"
  bookingSource :: "string option"

text \<open>The three lower-cased texts that \<open>determineSource\<close> binds first.\<close>

definition refererOf :: "rawBooking \<Rightarrow> string" where
  "refererOf booking = toLowerCase (strOr (referer booking) (strOr (channel booking) []))"

definition sourceOf :: "rawBooking \<Rightarrow> string" where
  "sourceOf booking = toLowerCase (strOr (source booking) (strOr (bookingSource booking) []))"

definition channelOf :: "rawBooking \<Rightarrow> string" where
  "channelOf booking = toLowerCase (strOr (channel booking) [])"

definition determineSource :: "rawBooking \<Rightarrow> string" where
  "determineSource booking =
     (let referer = refererOf booking;
          source = sourceOf booking;
          channel = channelOf booking
      in if includesStr referer ''airbnb'' \<or> includesStr source ''airbnb'' then ''airbnb''
         else if includesStr referer ''booking'' \<or> includesStr source ''booking'' then ''booking''
         else if includesStr referer ''expedia'' \<or> includesStr source ''expedia'' then ''expedia''
         else if channel = ''direct'' \<or> includesStr referer ''direct'' \<or> includesStr source ''direct''
                 \<or> includesStr referer ''pavlosol'' \<or> includesStr referer ''app''
                 \<or> includesStr channel ''website''
         then ''direct''
         else if source \<noteq> [] then source
         else if referer \<noteq> [] then referer
         else ''direct'')"

text \<open>A platform keyword occurs in the referer or source text of the record.\<close>

definition hasPlatformKeyword :: "rawBooking \<Rightarrow> bool" where
  "hasPlatformKeyword booking =
     list_ex (\<lambda>k. includesStr (refererOf booking) k \<or> includesStr (sourceOf booking) k)
       [''airbnb'', ''booking'', ''expedia'']"

section \<open>ICS module: source classification\<close>

record icsEvent =
  summary :: "string option"
  description :: "string option"
  uid :: "string option"

definition determineSourceICS :: "icsEvent \<Rightarrow> string" where
  "determineSourceICS event =
     (let summary = toLowerCase (strOr (summary event) []);
          description = toLowerCase (strOr (description event) []);
          uid = toLowerCase (strOr (uid event) [])
      in if includesStr summary ''airbnb'' \<or> includesStr description ''airbnb'' \<or> includesStr uid ''airbnb''
         then ''airbnb''
         else if includesStr summary ''booking'' \<or> includesStr description ''booking''
                 \<or> includesStr uid ''booking''
         then ''booking''
         else ''airbnb'')"

section \<open>Dates\<close>

text \<open>
  A JavaScript \<open>Date\<close> object holds a time value, the milliseconds since the epoch, or
  \<open>NaN\<close> (an invalid date). Time values are unbounded integers here; the arithmetic of
  the source on them is exact at the dates a calendar shows.
\<close>

datatype date = Date int | InvalidDate

definition msPerDay :: int where
  "msPerDay = 24 * 60 * 60 * 1000"

text \<open>
  The execution environment's timezone is a parameter \<open>z\<close> with the two readings of
  ECMAScript's \<open>LocalTZA\<close>: \<open>utcOffset z t\<close> is the offset of local time from UTC, in
  milliseconds and east positive, in force at the instant \<open>t\<close>; \<open>localOffset z lt\<close> is the
  offset by which the local time \<open>lt\<close> is read back as an instant. Daylight saving makes
  both depend on their argument. \<open>LocalTime\<close> and \<open>toUTC\<close> are the abstract operations
  \<open>LocalTime\<close> and \<open>UTC\<close> of ECMAScript.

  \<open>setHoursZero z t\<close> is \<^verbatim>\<open>date.setHours(0, 0, 0, 0)\<close> on the time value \<open>t\<close>: local midnight
  of the local day that \<open>t\<close> lies in. \<open>setDatePlus z n t\<close> is
  \<^verbatim>\<open>date.setDate(date.getDate() + n)\<close>: the same local time of day \<open>n\<close> calendar days on.
\<close>

record zone =
  utcOffset :: "int \<Rightarrow> int"
  localOffset :: "int \<Rightarrow> int"

definition LocalTime :: "zone \<Rightarrow> int \<Rightarrow> int" where
  "LocalTime z t = t + utcOffset z t"

definition toUTC :: "zone \<Rightarrow> int \<Rightarrow> int" where
  "toUTC z lt = lt - localOffset z lt"

definition setHoursZero :: "zone \<Rightarrow> int \<Rightarrow> int" where
  "setHoursZero z t = toUTC z ((LocalTime z t div msPerDay) * msPerDay)"

definition setDatePlus :: "zone \<Rightarrow> int \<Rightarrow> int \<Rightarrow> int" where
  "setDatePlus z n t = toUTC z (LocalTime z t + n * msPerDay)"

text \<open>
  Two timezones: one with the same offset \<open>tz\<close> at every instant, and Europe/Athens in
  2024, two hours east of UTC and three hours east from 2024-03-31 01:00 UTC (day number
  19813) to 2024-10-27 01:00 UTC (day number 20023); these are the offsets of
  Europe/Athens at every instant from 2023-10-29 to 2025-03-30. A local time that the
  spring change skips or the autumn change repeats is read with the offset before the
  change, as ECMAScript asks.
\<close>

definition fixedZone :: "int \<Rightarrow> zone" where
  "fixedZone tz = \<lparr>utcOffset = (\<lambda>t. tz), localOffset = (\<lambda>lt. tz)\<rparr>"

definition athens2024 :: zone where
  "athens2024 =
     \<lparr>utcOffset = (\<lambda>t. if 19813 * msPerDay + 3600000 \<le> t \<and> t < 20023 * msPerDay + 3600000
                        then 10800000 else 7200000),
      localOffset = (\<lambda>lt. if 19813 * msPerDay + 14400000 \<le> lt
                              \<and> lt < 20023 * msPerDay + 14400000
                           then 10800000 else 7200000)\<rparr>"

text \<open>
  \<open>normalizeDate\<close> answers \<open>null\<close> (\<open>None\<close>) for a missing or invalid date, else a valid
  date at local midnight, given by its time value.
\<close>

fun normalizeDate :: "zone \<Rightarrow> date option \<Rightarrow> int option" where
  "normalizeDate z None = None"
| "normalizeDate z (Some InvalidDate) = None"
| "normalizeDate z (Some (Date t)) = Some (setHoursZero z t)"

text \<open>\<open>Math.floor(a / b)\<close>, \<open>Math.ceil(a / b)\<close> and \<open>Math.round(a / b)\<close> for integers, \<open>b > 0\<close>.\<close>

definition floorDiv :: "int \<Rightarrow> int \<Rightarrow> int" where
  "floorDiv a b = a div b"

definition ceilDiv :: "int \<Rightarrow> int \<Rightarrow> int" where
  "ceilDiv a b = - ((- a) div b)"

definition roundDiv :: "int \<Rightarrow> int \<Rightarrow> int" where
  "roundDiv a b = (2 * a + b) div (2 * b)"

text \<open>
  The calendar arithmetic of the runtime. \<open>daysFromCivil y m d\<close> is the day number
  (days since 1970-01-01) of the proleptic Gregorian date with month \<open>m\<close> in 1..12;
  \<open>civilFromDays\<close> is its inverse on day numbers. \<open>MakeDay\<close>, \<open>MakeTime\<close> and \<open>MakeDate\<close>
  are the abstract operations of ECMAScript: a month outside 0..11 carries into the year,
  a day outside the month carries into the neighbouring months.
\<close>

definition daysFromCivil :: "int \<Rightarrow> int \<Rightarrow> int \<Rightarrow> int" where
  "daysFromCivil y m d =
     (let y1 = (if m \<le> 2 then y - 1 else y);
          era = y1 div 400;
          yoe = y1 - era * 400;
          mp = (m + 9) mod 12;
          doy = (153 * mp + 2) div 5 + d - 1;
          doe = yoe * 365 + yoe div 4 - yoe div 100 + doy
      in era * 146097 + doe - 719468)"

definition civilFromDays :: "int \<Rightarrow> int \<times> int \<times> int" where
  "civilFromDays z =
     (let z1 = z + 719468;
          era = z1 div 146097;
          doe = z1 - era * 146097;
          yoe = (doe - doe div 1460 + doe div 36524 - doe div 146096) div 365;
          doy = doe - (365 * yoe + yoe div 4 - yoe div 100);
          mp = (5 * doy + 2) div 153;
          d = doy - (153 * mp + 2) div 5 + 1;
          m = (if mp < 10 then mp + 3 else mp - 9);
          y = yoe + era * 400
      in (if m \<le> 2 then y + 1 else y, m, d))"

definition MakeDay :: "int \<Rightarrow> int \<Rightarrow> int \<Rightarrow> int" where
  "MakeDay year month dt = daysFromCivil (year + month div 12) (month mod 12 + 1) 1 + dt - 1"

definition MakeTime :: "int \<Rightarrow> int \<Rightarrow> int \<Rightarrow> int \<Rightarrow> int" where
  "MakeTime hour minute second ms = hour * 3600000 + minute * 60000 + second * 1000 + ms"

definition MakeDate :: "int \<Rightarrow> int \<Rightarrow> int" where
  "MakeDate day time = day * msPerDay + time"

text \<open>
  \<^verbatim>\<open>Date.UTC(year, month, day, hour, minute, second)\<close> and the local-time constructor
  \<^verbatim>\<open>new Date(year, month, day)\<close>; both read a year in 0..99 as 1900 + year.
\<close>

definition fullYear :: "int \<Rightarrow> int" where
  "fullYear year = (if 0 \<le> year \<and> year \<le> 99 then 1900 + year else year)"

definition DateUTC :: "int \<Rightarrow> int \<Rightarrow> int \<Rightarrow> int \<Rightarrow> int \<Rightarrow> int \<Rightarrow> int" where
  "DateUTC year month day hour minute second =
     MakeDate (MakeDay (fullYear year) month day) (MakeTime hour minute second 0)"

definition newDateLocal :: "zone \<Rightarrow> int \<Rightarrow> int \<Rightarrow> int \<Rightarrow> int" where
  "newDateLocal z year month day =
     toUTC z (MakeDate (MakeDay (fullYear year) month day) (MakeTime 0 0 0 0))"

text \<open>
  The calendar date that a time value shows in a timezone: the local day number, and the
  year, month (1..12) and day of the month that \<open>getFullYear\<close>, \<open>getMonth\<close> and \<open>getDate\<close>
  or \<open>toLocaleDateString\<close> read from it.
\<close>

definition localDay :: "zone \<Rightarrow> int \<Rightarrow> int" where
  "localDay z t = LocalTime z t div msPerDay"

definition localYMD :: "zone \<Rightarrow> int \<Rightarrow> int \<times> int \<times> int" where
  "localYMD z t = civilFromDays (localDay z t)"

section \<open>Date parsing\<close>

definition isDigit :: "char \<Rightarrow> bool" where
  "isDigit c = (c \<in> set ''0123456789'')"

definition digitVal :: "char \<Rightarrow> int" where
  "digitVal c = (case map_of (zip ''0123456789'' [0, 1, 2, 3, 4, 5, 6, 7, 8, 9]) c of
                   Some v \<Rightarrow> v
                 | None \<Rightarrow> 0)"

text \<open>\<open>Number(s)\<close> for a string of decimal digits.\<close>

definition numberOfDigits :: "string \<Rightarrow> int" where
  "numberOfDigits s = foldl (\<lambda>a c. 10 * a + digitVal c) 0 s"

text \<open>\<open>s.substring(a, b)\<close> for \<open>a \<le> b\<close>.\<close>

definition substring :: "string \<Rightarrow> nat \<Rightarrow> nat \<Rightarrow> string" where
  "substring s a b = take (b - a) (drop a s)"

text \<open>
  The regular expression \<^verbatim>\<open>^\d{4}-\d{2}-\d{2}$\<close> of \<open>Beds24API.parseDate\<close>, and the same
  without the final \<^verbatim>\<open>$\<close> of \<open>parseIsoDate\<close>.
\<close>

definition isDateOnly :: "string \<Rightarrow> bool" where
  "isDateOnly s =
     (length s = 10 \<and> list_all isDigit (substring s 0 4) \<and> s ! 4 = CHR ''-''
      \<and> list_all isDigit (substring s 5 7) \<and> s ! 7 = CHR ''-''
      \<and> list_all isDigit (substring s 8 10))"

definition hasDatePrefix :: "string \<Rightarrow> bool" where
  "hasDatePrefix s = isDateOnly (take 10 s)"

text \<open>
  \<open>Beds24API.parseDate\<close>. The argument is absent or a string. \<open>nativeParse\<close> is the
  runtime's \<^verbatim>\<open>new Date(string)\<close>, which the date-only branch never reaches.
\<close>

definition parseDate :: "(string \<Rightarrow> date) \<Rightarrow> string option \<Rightarrow> date option" where
  "parseDate nativeParse dateString =
     (case dateString of
        None \<Rightarrow> None
      | Some s \<Rightarrow>
          if s = [] then None
          else if isDateOnly s then
            Some (Date (DateUTC (numberOfDigits (substring s 0 4))
                          (numberOfDigits (substring s 5 7) - 1)
                          (numberOfDigits (substring s 8 10)) 12 0 0))
          else (case nativeParse s of InvalidDate \<Rightarrow> None | Date t \<Rightarrow> Some (Date t)))"

text \<open>
  \<open>BookingCalendar.parseIsoDate\<close>. The value is \<open>null\<close>, a \<open>Date\<close>, a number (an integer
  time value) or a string.
\<close>

datatype jsValue = JNull | JDate date | JNumber int | JString string

definition parseIsoDate :: "(string \<Rightarrow> date) \<Rightarrow> jsValue \<Rightarrow> date option" where
  "parseIsoDate nativeParse v =
     (case v of
        JNull \<Rightarrow> None
      | JDate d \<Rightarrow> Some d
      | JNumber n \<Rightarrow> (if n = 0 then None else Some (Date n))
      | JString s \<Rightarrow>
          if s = [] then None
          else if hasDatePrefix s then
            Some (Date (DateUTC (numberOfDigits (substring s 0 4))
                          (numberOfDigits (substring s 5 7) - 1)
                          (numberOfDigits (substring s 8 10)) 12 0 0))
          else (case nativeParse s of InvalidDate \<Rightarrow> None | Date t \<Rightarrow> Some (Date t)))"

text \<open>
  \<open>parseInt(s, 10)\<close>: leading white space, an optional sign, then the longest run of
  digits; \<open>NaN\<close> (\<open>None\<close>) when there is no digit.
\<close>

definition isWhiteSpace :: "char \<Rightarrow> bool" where
  "isWhiteSpace c = (c \<in> set [CHR 0x20, CHR 0x09, CHR 0x0A, CHR 0x0B, CHR 0x0C, CHR 0x0D])"

definition parseInt :: "string \<Rightarrow> int option" where
  "parseInt s =
     (let t = dropWhile isWhiteSpace s;
          neg = (t \<noteq> [] \<and> hd t = CHR ''-'');
          u = (if t \<noteq> [] \<and> (hd t = CHR ''-'' \<or> hd t = CHR ''+'') then tl t else t);
          ds = takeWhile isDigit u
      in if ds = [] then None
         else Some (if neg then - numberOfDigits ds else numberOfDigits ds))"

text \<open>
  \<open>parseICSDate\<close> of the ICS module. A date with a time part is read as UTC; a date
  without one is built in local time. A part that is \<open>NaN\<close> makes the date invalid.
\<close>

definition parseICSDate :: "zone \<Rightarrow> string option \<Rightarrow> date option" where
  "parseICSDate z dateString =
     (case dateString of
        None \<Rightarrow> None
      | Some s0 \<Rightarrow>
          if s0 = [] then None
          else
            let s = (if startsWith s0 ''VALUE=DATE:'' then drop 11 s0 else s0);
                year = parseInt (substring s 0 4);
                month = map_option (\<lambda>m. m - 1) (parseInt (substring s 4 6));
                day = parseInt (substring s 6 8)
            in if length s > 8 then
                 (case (year, month, day, parseInt (substring s 9 11),
                        parseInt (substring s 11 13), parseInt (substring s 13 15)) of
                    (Some y, Some m, Some d, Some hour, Some minute, Some second) \<Rightarrow>
                      Some (Date (DateUTC y m d hour minute second))
                  | _ \<Rightarrow> Some InvalidDate)
               else
                 (case (year, month, day) of
                    (Some y, Some m, Some d) \<Rightarrow> Some (Date (newDateLocal z y m d))
                  | _ \<Rightarrow> Some InvalidDate))"

text \<open>
  What a parsed date shows in a timezone: its local day number and its local calendar
  date. \<open>dateOnlyDay s\<close> is the day number of the date written in a date-only string, as
  \<open>Date.UTC\<close> reads its three numbers. \<open>noNativeParse\<close> stands for a runtime whose
  \<^verbatim>\<open>new Date(string)\<close> accepts nothing, for the closed examples.
\<close>

definition localDayOf :: "zone \<Rightarrow> date option \<Rightarrow> int option" where
  "localDayOf z v = (case v of Some (Date t) \<Rightarrow> Some (localDay z t) | _ \<Rightarrow> None)"

definition localDateOf :: "zone \<Rightarrow> date option \<Rightarrow> (int \<times> int \<times> int) option" where
  "localDateOf z v = (case v of Some (Date t) \<Rightarrow> Some (localYMD z t) | _ \<Rightarrow> None)"

definition dateOnlyDay :: "string \<Rightarrow> int" where
  "dateOnlyDay s =
     MakeDay (fullYear (numberOfDigits (substring s 0 4))) (numberOfDigits (substring s 5 7) - 1)
       (numberOfDigits (substring s 8 10))"

definition noNativeParse :: "string \<Rightarrow> date" where
  "noNativeParse s = InvalidDate"

section \<open>Timeline layout engine\<close>

text \<open>
  A booking as the frontend holds it after \<open>loadBookings\<close>: \<open>id_b\<close> is \<open>String(booking.id)\<close>,
  \<open>startDate\<close> and \<open>endDate\<close> are \<open>null\<close> or a \<open>Date\<close>.
\<close>

record booking =
  id_b :: string
  guestName :: string
  room :: string
  startDate :: "date option"
  endDate :: "date option"
  source_b :: string

text \<open>
  The first statement of \<open>renderRoomRow\<close>: keep the bookings of the room, add \<open>checkIn\<close>
  and \<open>checkOut\<close>, drop those where either is \<open>null\<close>, sort by \<open>checkIn\<close>.
  \<open>withCheckInOut\<close> is the \<open>map\<close> and the second \<open>filter\<close> together; \<open>orig\<close> holds the
  fields that the spread \<^verbatim>\<open>...booking\<close> copies; \<open>roomCandidates\<close> is the list before the
  sort. \<open>Array.prototype.sort\<close> is stable, as \<open>sort_key\<close> is.
\<close>

record roomBooking =
  orig :: booking
  checkIn :: int
  checkOut :: int

definition withCheckInOut :: "zone \<Rightarrow> booking \<Rightarrow> roomBooking option" where
  "withCheckInOut z b =
     (case normalizeDate z (startDate b) of
        None \<Rightarrow> None
      | Some ci \<Rightarrow>
          (case normalizeDate z (endDate b) of
             None \<Rightarrow> None
           | Some co \<Rightarrow> Some \<lparr>orig = b, checkIn = ci, checkOut = co\<rparr>))"

definition roomCandidates :: "zone \<Rightarrow> string \<Rightarrow> booking list \<Rightarrow> roomBooking list" where
  "roomCandidates z roomName bookings =
     List.map_filter (withCheckInOut z)
       (filter (\<lambda>b. toLowerCase (room b) = toLowerCase roomName) bookings)"

definition roomBookings :: "zone \<Rightarrow> string \<Rightarrow> booking list \<Rightarrow> roomBooking list" where
  "roomBookings z roomName bookings = sort_key checkIn (roomCandidates z roomName bookings)"

text \<open>
  The \<open>while\<close> loop that looks for a free lane. \<open>laneEndOffsets[laneIndex] !== undefined\<close>
  is \<open>laneIndex < length laneEndOffsets\<close>: the array holds numbers and has no holes.
\<close>

function findLane :: "int list \<Rightarrow> int \<Rightarrow> nat \<Rightarrow> nat" where
  "findLane laneEndOffsets startOffset laneIndex =
     (if laneIndex < length laneEndOffsets \<and> laneEndOffsets ! laneIndex > startOffset
      then findLane laneEndOffsets startOffset (laneIndex + 1)
      else laneIndex)"
  by pat_completeness auto
termination
  by (relation "measure (\<lambda>(laneEndOffsets, startOffset, laneIndex). length laneEndOffsets - laneIndex)")
     auto

declare findLane.simps [simp del]

text \<open>
  \<^verbatim>\<open>laneEndOffsets[laneIndex] = endOffset\<close>: overwrite inside the array, append at its
  end. The index that \<open>findLane\<close> returns is never beyond the end.
\<close>

definition setLaneEnd :: "int list \<Rightarrow> nat \<Rightarrow> int \<Rightarrow> int list" where
  "setLaneEnd laneEndOffsets laneIndex endOffset =
     (if laneIndex < length laneEndOffsets then laneEndOffsets[laneIndex := endOffset]
      else laneEndOffsets @ [endOffset])"

record layoutBooking =
  booking :: roomBooking
  startOffset :: int
  duration :: int
  laneIndex :: nat

record layoutState =
  laneEndOffsets :: "int list"
  layoutBookings :: "layoutBooking list"

text \<open>The body of \<^verbatim>\<open>roomBookings.forEach\<close>; each \<open>return\<close> leaves the state as it is.\<close>

definition barStartTime :: "int \<Rightarrow> roomBooking \<Rightarrow> int" where
  "barStartTime gridStart b = max (checkIn b) gridStart"

definition barEndTime :: "int \<Rightarrow> roomBooking \<Rightarrow> int" where
  "barEndTime gridEndExclusive b = min (checkOut b) gridEndExclusive"

definition startOffsetOf :: "int \<Rightarrow> roomBooking \<Rightarrow> int" where
  "startOffsetOf gridStart b = max 0 (floorDiv (barStartTime gridStart b - gridStart) msPerDay)"

definition rawEndOffsetOf :: "int \<Rightarrow> int \<Rightarrow> roomBooking \<Rightarrow> int" where
  "rawEndOffsetOf gridStart gridEndExclusive b =
     ceilDiv (barEndTime gridEndExclusive b - gridStart) msPerDay"

definition endOffsetOf :: "int \<Rightarrow> int \<Rightarrow> int \<Rightarrow> roomBooking \<Rightarrow> int" where
  "endOffsetOf gridStart gridEndExclusive totalDays b =
     max (startOffsetOf gridStart b) (min totalDays (rawEndOffsetOf gridStart gridEndExclusive b))"

definition layoutStep :: "int \<Rightarrow> int \<Rightarrow> int \<Rightarrow> roomBooking \<Rightarrow> layoutState \<Rightarrow> layoutState" where
  "layoutStep gridStart gridEndExclusive totalDays b st =
     (if barEndTime gridEndExclusive b \<le> barStartTime gridStart b then st
      else
        let startOffset = startOffsetOf gridStart b
        in if startOffset \<ge> totalDays then st
           else
             let endOffset = endOffsetOf gridStart gridEndExclusive totalDays b;
                 duration = endOffset - startOffset
             in if duration \<le> 0 then st
                else
                  let laneIndex = findLane (laneEndOffsets st) startOffset 0
                  in \<lparr>laneEndOffsets = setLaneEnd (laneEndOffsets st) laneIndex endOffset,
                      layoutBookings = layoutBookings st @
                        [\<lparr>booking = b, startOffset = startOffset, duration = duration,
                          laneIndex = laneIndex\<rparr>]\<rparr>)"

text \<open>
  The grid of \<open>renderRoomRow\<close>: \<open>winStart\<close> and \<open>winEnd\<close> are the time values of the valid
  dates that \<open>renderCalendar\<close> passes as \<open>startDate\<close> and \<open>endDate\<close>. The exclusive end
  of the grid is local midnight of the day after the last window day.
\<close>

definition gridStartOf :: "zone \<Rightarrow> int \<Rightarrow> int" where
  "gridStartOf z winStart = setHoursZero z winStart"

definition gridEndExclusiveOf :: "zone \<Rightarrow> int \<Rightarrow> int" where
  "gridEndExclusiveOf z winEnd = setDatePlus z 1 (setHoursZero z winEnd)"

definition totalDaysOf :: "zone \<Rightarrow> int \<Rightarrow> int \<Rightarrow> int" where
  "totalDaysOf z winStart winEnd =
     max 0 (roundDiv (gridEndExclusiveOf z winEnd - gridStartOf z winStart) msPerDay)"

text \<open>The layout pass of \<open>renderRoomRow\<close>, up to the end of the \<open>forEach\<close>.\<close>

definition layoutPass :: "zone \<Rightarrow> string \<Rightarrow> booking list \<Rightarrow> int \<Rightarrow> int \<Rightarrow> layoutState" where
  "layoutPass z roomName bookings winStart winEnd =
     fold (layoutStep (gridStartOf z winStart) (gridEndExclusiveOf z winEnd)
             (totalDaysOf z winStart winEnd))
       (roomBookings z roomName bookings)
       \<lparr>laneEndOffsets = [], layoutBookings = []\<rparr>"

text \<open>
  The window of \<open>renderCalendar\<close>: it starts at local midnight of the current date and
  ends \<open>timelineDays - 1 = 364\<close> calendar days later.
\<close>

definition timelineStart :: "zone \<Rightarrow> int \<Rightarrow> int" where
  "timelineStart z currentDate = setHoursZero z currentDate"

definition timelineEnd :: "zone \<Rightarrow> int \<Rightarrow> int" where
  "timelineEnd z currentDate = setDatePlus z (365 - 1) (timelineStart z currentDate)"

section \<open>Properties of a layout\<close>

text \<open>
  A laid-out booking covers the day offsets of its half-open interval
  \<open>[startOffset, startOffset + duration)\<close>; \<open>overlapAt out d\<close> counts the emitted bookings
  that cover day offset \<open>d\<close>.
\<close>

definition covers :: "layoutBooking \<Rightarrow> int \<Rightarrow> bool" where
  "covers l d = (startOffset l \<le> d \<and> d < startOffset l + duration l)"

definition overlapAt :: "layoutBooking list \<Rightarrow> int \<Rightarrow> nat" where
  "overlapAt out d = length (filter (\<lambda>l. covers l d) out)"

text \<open>
  The last branch of \<open>layoutStep\<close>, and the condition under which it is taken: none of
  the three guards returns.
\<close>

definition placeBar :: "layoutState \<Rightarrow> roomBooking \<Rightarrow> int \<Rightarrow> int \<Rightarrow> layoutState" where
  "placeBar st b s e =
     \<lparr>laneEndOffsets = setLaneEnd (laneEndOffsets st) (findLane (laneEndOffsets st) s 0) e,
      layoutBookings = layoutBookings st @
        [\<lparr>booking = b, startOffset = s, duration = e - s,
          laneIndex = findLane (laneEndOffsets st) s 0\<rparr>]\<rparr>"

definition survives :: "int \<Rightarrow> int \<Rightarrow> int \<Rightarrow> roomBooking \<Rightarrow> bool" where
  "survives gs ge td b =
     (barStartTime gs b < barEndTime ge b \<and> startOffsetOf gs b < td
      \<and> startOffsetOf gs b < endOffsetOf gs ge td b)"

text \<open>
  \<open>clippedEmpty\<close>: the booking has both dates and its interval, clipped to the grid, is
  empty or inverted (the first guard of the loop body). \<open>isStableSortOf f xs ys\<close>: \<open>ys\<close> is
  \<open>xs\<close> sorted by the key \<open>f\<close> with equal keys left in their order, which is what
  ECMAScript asks of \<open>Array.prototype.sort\<close>.
\<close>

definition clippedEmpty :: "zone \<Rightarrow> int \<Rightarrow> int \<Rightarrow> booking \<Rightarrow> bool" where
  "clippedEmpty z winStart winEnd b =
     (case withCheckInOut z b of
        None \<Rightarrow> False
      | Some rb \<Rightarrow>
          barEndTime (gridEndExclusiveOf z winEnd) rb \<le> barStartTime (gridStartOf z winStart) rb)"

definition isStableSortOf :: "('a \<Rightarrow> int) \<Rightarrow> 'a list \<Rightarrow> 'a list \<Rightarrow> bool" where
  "isStableSortOf f xs ys =
     (mset ys = mset xs \<and> sorted (map f ys)
      \<and> (\<forall>k. filter (\<lambda>x. f x = k) ys = filter (\<lambda>x. f x = k) xs))"

text \<open>
  Invariants of the loop. \<open>laneInv\<close>: every emitted booking lies in an existing lane, has a
  positive duration and ends no later than its lane's end offset; bookings of one lane
  follow each other without overlap. \<open>tightInv\<close>: every lane's end offset is the end of a
  booking in it, no emitted booking starts after \<open>m\<close>, and some day offset is covered by
  as many bookings as there are lanes.
\<close>

definition laneInv :: "layoutState \<Rightarrow> bool" where
  "laneInv st =
     ((\<forall>l \<in> set (layoutBookings st).
         laneIndex l < length (laneEndOffsets st) \<and> 0 < duration l
         \<and> startOffset l + duration l \<le> laneEndOffsets st ! laneIndex l)
      \<and> (\<forall>i j. i < j \<and> j < length (layoutBookings st)
            \<and> laneIndex (layoutBookings st ! i) = laneIndex (layoutBookings st ! j)
          \<longrightarrow> startOffset (layoutBookings st ! i) + duration (layoutBookings st ! i)
                \<le> startOffset (layoutBookings st ! j))
      \<and> (\<forall>d. distinct (map laneIndex (filter (\<lambda>l. covers l d) (layoutBookings st)))))"

definition tightInv :: "layoutState \<Rightarrow> int \<Rightarrow> bool" where
  "tightInv st m =
     ((\<forall>i < length (laneEndOffsets st). \<exists>l \<in> set (layoutBookings st).
          laneIndex l = i \<and> startOffset l + duration l = laneEndOffsets st ! i)
      \<and> (\<forall>l \<in> set (layoutBookings st). startOffset l \<le> m)
      \<and> (\<exists>d. length (laneEndOffsets st) \<le> overlapAt (layoutBookings st) d))"

section \<open>Example bookings\<close>

text \<open>
  \<open>dateAt z y m d tod\<close> is a \<open>Date\<close> \<open>tod\<close> milliseconds after local midnight of the
  calendar day \<open>y-m-d\<close> (month 1..12) in timezone \<open>z\<close>; \<open>mkBooking\<close> is a booking with the
  given id, room and dates; \<open>summaryOf\<close> lists id, lane, start offset and duration of the
  emitted bookings.
\<close>

definition dateAt :: "zone \<Rightarrow> int \<Rightarrow> int \<Rightarrow> int \<Rightarrow> int \<Rightarrow> date option" where
  "dateAt z y m d tod = Some (Date (newDateLocal z y (m - 1) d + tod))"

definition mkBooking :: "string \<Rightarrow> string \<Rightarrow> date option \<Rightarrow> date option \<Rightarrow> booking" where
  "mkBooking i r s e =
     \<lparr>id_b = i, guestName = ''Guest'', room = r, startDate = s, endDate = e,
      source_b = ''direct''\<rparr>"

definition summaryOf :: "layoutState \<Rightarrow> (string \<times> nat \<times> int \<times> int) list" where
  "summaryOf st =
     map (\<lambda>l. (id_b (orig (booking l)), laneIndex l, startOffset l, duration l))
       (layoutBookings st)"

text \<open>
  Closed examples in a timezone always two hours east of UTC: bookings A (1 to 10
  January 2024) and B (10 to 15 January), a booking C that overlaps both, a booking E
  that starts with A and ends before B starts, a booking X that ends before the window
  starts, and the 365-day window that \<open>renderCalendar\<close> builds from 2024-01-01.
\<close>

definition exZone :: zone where
  "exZone = fixedZone 7200000"

definition exA :: booking where
  "exA = mkBooking ''A'' ''jason'' (dateAt exZone 2024 1 1 0) (dateAt exZone 2024 1 10 0)"

definition exB :: booking where
  "exB = mkBooking ''B'' ''jason'' (dateAt exZone 2024 1 10 0) (dateAt exZone 2024 1 15 0)"

definition exC :: booking where
  "exC = mkBooking ''C'' ''jason'' (dateAt exZone 2024 1 5 0) (dateAt exZone 2024 1 12 0)"

definition exE :: booking where
  "exE = mkBooking ''E'' ''jason'' (dateAt exZone 2024 1 1 0) (dateAt exZone 2024 1 3 0)"

definition exX :: booking where
  "exX = mkBooking ''X'' ''jason'' (dateAt exZone 2023 12 20 0) (dateAt exZone 2023 12 28 0)"

definition exStart :: int where
  "exStart = timelineStart exZone (newDateLocal exZone 2024 0 1)"

definition exEnd :: int where
  "exEnd = timelineEnd exZone (newDateLocal exZone 2024 0 1)"

definition exOut :: "layoutBooking list" where
  "exOut = layoutBookings (layoutPass exZone ''jason'' [exA, exB] exStart exEnd)"

text \<open>
  The window from 2024-01-03 to 2024-01-31 in the same timezone, a booking that starts
  before it (1 to 5 January) and one that ends after it (20 January to 10 February), each
  laid out alone.
\<close>

definition exClipStart :: int where
  "exClipStart = newDateLocal exZone 2024 0 3"

definition exClipEnd :: int where
  "exClipEnd = newDateLocal exZone 2024 0 31"

definition exClipA :: booking where
  "exClipA = mkBooking ''A'' ''jason'' (dateAt exZone 2024 1 1 0) (dateAt exZone 2024 1 5 0)"

definition exClipD :: booking where
  "exClipD = mkBooking ''D'' ''jason'' (dateAt exZone 2024 1 20 0) (dateAt exZone 2024 2 10 0)"

definition exClipOutA :: "layoutBooking list" where
  "exClipOutA = layoutBookings (layoutPass exZone ''jason'' [exClipA] exClipStart exClipEnd)"

definition exClipOutD :: "layoutBooking list" where
  "exClipOutD = layoutBookings (layoutPass exZone ''jason'' [exClipD] exClipStart exClipEnd)"

text \<open>
  Closed examples in Europe/Athens: the 365-day window built from 2024-03-01, and two
  bookings as \<open>loadBookings\<close> parses them from date-only strings, 8 to 10 April and 10 to
  12 April, after the clocks have gone forward.
\<close>

definition athA :: booking where
  "athA = mkBooking ''A'' ''jason'' (parseIsoDate noNativeParse (JString ''2024-04-08''))
            (parseIsoDate noNativeParse (JString ''2024-04-10''))"

definition athB :: booking where
  "athB = mkBooking ''B'' ''jason'' (parseIsoDate noNativeParse (JString ''2024-04-10''))
            (parseIsoDate noNativeParse (JString ''2024-04-12''))"

definition athStart :: int where
  "athStart = timelineStart athens2024 (newDateLocal athens2024 2024 2 1)"

definition athEnd :: int where
  "athEnd = timelineEnd athens2024 (newDateLocal athens2024 2024 2 1)"

section \<open>Selection state\<close>

text \<open>
  The fields of the calendar object that selection reads and writes: the loaded bookings,
  the source filter, the selected booking id (\<open>null\<close> or a string) and whether the page has
  the calendar element. \<open>renderCalendar\<close> is the state change of the method of that name: it
  returns at once without the element, else it clears a selection that is not among the
  filtered bookings. \<open>selectBookingById\<close> is the click on a bar: it overwrites the
  selection with the id of the first loaded booking that has the id of the bar.
  \<open>isSelected\<close> is the test that marks a bar as selected.
\<close>

record calendarState =
  bookings :: "booking list"
  filter_s :: string
  selectedBookingId :: "string option"
  hasCalendarEl :: bool

definition getFilteredBookings :: "calendarState \<Rightarrow> booking list" where
  "getFilteredBookings s =
     filter (\<lambda>b. filter_s s = ''all'' \<or> source_b b = filter_s s) (bookings s)"

definition truthyId :: "string option \<Rightarrow> bool" where
  "truthyId v = (case v of None \<Rightarrow> False | Some i \<Rightarrow> i \<noteq> [])"

definition renderCalendar :: "calendarState \<Rightarrow> calendarState" where
  "renderCalendar s =
     (if \<not> hasCalendarEl s then s
      else
        let filteredBookings = getFilteredBookings s
        in if truthyId (selectedBookingId s)
              \<and> \<not> list_ex (\<lambda>b. Some (id_b b) = selectedBookingId s) filteredBookings
           then s\<lparr>selectedBookingId := None\<rparr>
           else s)"

definition findBookingById :: "calendarState \<Rightarrow> string \<Rightarrow> booking option" where
  "findBookingById s bookingId =
     (if bookingId = [] then None else find (\<lambda>b. id_b b = bookingId) (bookings s))"

definition selectBookingById :: "string \<Rightarrow> calendarState \<Rightarrow> calendarState" where
  "selectBookingById bookingId s =
     (if bookingId = [] then s
      else (case findBookingById s bookingId of
              None \<Rightarrow> s
            | Some b \<Rightarrow> s\<lparr>selectedBookingId := Some (id_b b)\<rparr>))"

definition isSelected :: "calendarState \<Rightarrow> booking \<Rightarrow> bool" where
  "isSelected s b = (truthyId (selectedBookingId s) \<and> Some (id_b b) = selectedBookingId s)"

definition exState :: "string \<Rightarrow> calendarState" where
  "exState sel =
     \<lparr>bookings = [exA\<lparr>source_b := ''airbnb''\<rparr>, exB\<lparr>source_b := ''booking''\<rparr>],
      filter_s = ''airbnb'', selectedBookingId = Some sel, hasCalendarEl = True\<rparr>"

section \<open>Source classification: results\<close>

text \<open>
  Claim C7. Beds24 source classification always yields a label, and the label is never
  empty. A record whose channel is "direct" and whose referer and source texts hold no
  platform keyword is classified "direct"; so is a record whose referer, channel and
  source texts are all empty.
\<close>

theorem determineSource_total_direct:
  "determineSource b \<noteq> []
   \<and> (channelOf b = ''direct'' \<and> \<not> hasPlatformKeyword b \<longrightarrow> determineSource b = ''direct'')
   \<and> (refererOf b = [] \<and> channelOf b = [] \<and> sourceOf b = [] \<longrightarrow> determineSource b = ''direct'')"
  by (simp add: determineSource_def hasPlatformKeyword_def Let_def)

theorem determineSource_total_direct_witness:
  "channelOf \<lparr>referer = None, channel = Some ''Direct'', source = None, bookingSource = None\<rparr>
     = ''direct''
   \<and> \<not> hasPlatformKeyword
         \<lparr>referer = None, channel = Some ''Direct'', source = None, bookingSource = None\<rparr>
   \<and> determineSource
         \<lparr>referer = None, channel = Some ''Direct'', source = None, bookingSource = None\<rparr>
       = ''direct''
   \<and> refererOf \<lparr>referer = None, channel = Some [], source = None, bookingSource = None\<rparr> = []
   \<and> channelOf \<lparr>referer = None, channel = Some [], source = None, bookingSource = None\<rparr> = []
   \<and> sourceOf \<lparr>referer = None, channel = Some [], source = None, bookingSource = None\<rparr> = []
   \<and> determineSource \<lparr>referer = None, channel = Some [], source = None, bookingSource = None\<rparr>
       = ''direct''"
  using determineSource_total_direct
          [of "\<lparr>referer = None, channel = Some ''Direct'', source = None, bookingSource = None\<rparr>"]
        determineSource_total_direct
          [of "\<lparr>referer = None, channel = Some [], source = None, bookingSource = None\<rparr>"]
  by (simp add: channelOf_def refererOf_def sourceOf_def hasPlatformKeyword_def toLowerCase_def
        lowerChar_def startsWith_def)

text \<open>
  Claim C10. The ICS module's source classification answers "airbnb" or "booking" and
  nothing else; when "airbnb" and "booking" occur in none of summary, description and
  uid, the answer is "airbnb".
\<close>

theorem determineSourceICS_two_labels:
  "(determineSourceICS e = ''airbnb'' \<or> determineSourceICS e = ''booking'')
   \<and> (\<not> list_ex (\<lambda>t. includesStr t ''airbnb'' \<or> includesStr t ''booking'')
            [toLowerCase (strOr (summary e) []), toLowerCase (strOr (description e) []),
             toLowerCase (strOr (uid e) [])]
        \<longrightarrow> determineSourceICS e = ''airbnb'')"
  by (simp add: determineSourceICS_def Let_def)

theorem determineSourceICS_two_labels_witness:
  "\<not> list_ex (\<lambda>t. includesStr t ''airbnb'' \<or> includesStr t ''booking'')
        [toLowerCase (strOr (summary \<lparr>summary = Some ''Reserved'', description = None, uid = Some ''A1''\<rparr>) []),
         toLowerCase (strOr (description \<lparr>summary = Some ''Reserved'', description = None, uid = Some ''A1''\<rparr>) []),
         toLowerCase (strOr (uid \<lparr>summary = Some ''Reserved'', description = None, uid = Some ''A1''\<rparr>) [])]
   \<and> determineSourceICS \<lparr>summary = Some ''Reserved'', description = None, uid = Some ''A1''\<rparr>
       = ''airbnb''"
  using determineSourceICS_two_labels
          [of "\<lparr>summary = Some ''Reserved'', description = None, uid = Some ''A1''\<rparr>"]
  by (simp add: toLowerCase_def lowerChar_def startsWith_def)

section \<open>Lane assignment: results\<close>

lemma findLane_le: "k \<le> length xs \<Longrightarrow> findLane xs s k \<le> length xs"
proof (induction xs s k rule: findLane.induct)
  case (1 xs s k)
  show ?case
  proof (cases "k < length xs \<and> xs ! k > s")
    case True
    with 1 have "findLane xs s (k + 1) \<le> length xs" by simp
    with True show ?thesis by (subst findLane.simps) simp
  next
    case False
    with 1 show ?thesis by (subst findLane.simps) auto
  qed
qed

lemma findLane_busy: "k \<le> i \<Longrightarrow> i < findLane xs s k \<Longrightarrow> s < xs ! i"
proof (induction xs s k rule: findLane.induct)
  case (1 xs s k)
  show ?case
  proof (cases "k < length xs \<and> xs ! k > s")
    case True
    then have eq: "findLane xs s k = findLane xs s (k + 1)" by (subst findLane.simps) simp
    show ?thesis
    proof (cases "i = k")
      case True
      with \<open>k < length xs \<and> xs ! k > s\<close> show ?thesis by simp
    next
      case False
      with 1 True eq show ?thesis by simp
    qed
  next
    case False
    then have "findLane xs s k = k" by (subst findLane.simps) auto
    with 1 show ?thesis by simp
  qed
qed

lemma findLane_free: "findLane xs s k < length xs \<Longrightarrow> xs ! findLane xs s k \<le> s"
proof (induction xs s k rule: findLane.induct)
  case (1 xs s k)
  show ?case
  proof (cases "k < length xs \<and> xs ! k > s")
    case True
    then have eq: "findLane xs s k = findLane xs s (k + 1)" by (subst findLane.simps) simp
    with 1 True show ?thesis by simp
  next
    case False
    then have "findLane xs s k = k" by (subst findLane.simps) auto
    with 1 False show ?thesis by auto
  qed
qed

lemma layoutStep_cases:
  "layoutStep gs ge td b st =
     (if survives gs ge td b then placeBar st b (startOffsetOf gs b) (endOffsetOf gs ge td b) else st)"
  by (auto simp: layoutStep_def survives_def placeBar_def Let_def)


lemma length_setLaneEnd:
  "length (setLaneEnd xs k e) = (if k < length xs then length xs else length xs + 1)"
  by (simp add: setLaneEnd_def)

lemma nth_setLaneEnd_eq: "k \<le> length xs \<Longrightarrow> setLaneEnd xs k e ! k = e"
  by (auto simp: setLaneEnd_def)

lemma nth_setLaneEnd_neq: "i \<noteq> k \<Longrightarrow> i < length xs \<Longrightarrow> setLaneEnd xs k e ! i = xs ! i"
  by (auto simp: setLaneEnd_def nth_append)

lemma laneInv_old_lane_free:
  assumes inv: "laneInv st" and l: "l \<in> set (layoutBookings st)"
    and k: "laneIndex l = findLane (laneEndOffsets st) s 0"
  shows "startOffset l + duration l \<le> s"
proof -
  from inv l have lt: "laneIndex l < length (laneEndOffsets st)"
    and le: "startOffset l + duration l \<le> laneEndOffsets st ! laneIndex l"
    by (auto simp: laneInv_def)
  from lt k have "laneEndOffsets st ! findLane (laneEndOffsets st) s 0 \<le> s"
    by (simp add: findLane_free)
  with le k show ?thesis by simp
qed

lemma laneInv_placeBar:
  assumes inv: "laneInv st" and se: "s < e"
  shows "laneInv (placeBar st b s e)"
proof -
  define lanes where "lanes = laneEndOffsets st"
  define out where "out = layoutBookings st"
  define k where "k = findLane lanes s 0"
  define new where "new = \<lparr>booking = b, startOffset = s, duration = e - s, laneIndex = k\<rparr>"
  have lanes': "laneEndOffsets (placeBar st b s e) = setLaneEnd lanes k e"
    and out': "layoutBookings (placeBar st b s e) = out @ [new]"
    by (simp_all add: placeBar_def lanes_def out_def k_def new_def)
  have kle: "k \<le> length lanes" by (simp add: k_def findLane_le)
  have free: "startOffset l + duration l \<le> s" if "l \<in> set out" "laneIndex l = k" for l
    using laneInv_old_lane_free[OF inv, of l s] that by (simp add: out_def k_def lanes_def)
  have old: "laneIndex l < length lanes \<and> 0 < duration l
      \<and> startOffset l + duration l \<le> lanes ! laneIndex l" if "l \<in> set out" for l
    using inv that by (auto simp: laneInv_def lanes_def out_def)
  have A: "laneIndex l < length (setLaneEnd lanes k e) \<and> 0 < duration l
      \<and> startOffset l + duration l \<le> setLaneEnd lanes k e ! laneIndex l"
    if "l \<in> set (out @ [new])" for l
  proof (cases "l = new")
    case True
    with kle se show ?thesis
      by (auto simp: new_def length_setLaneEnd nth_setLaneEnd_eq)
  next
    case False
    with that have lo: "l \<in> set out" by simp
    show ?thesis
    proof (cases "laneIndex l = k")
      case True
      with free[OF lo] se old[OF lo] kle show ?thesis
        by (auto simp: length_setLaneEnd nth_setLaneEnd_eq)
    next
      case False
      with old[OF lo] show ?thesis
        by (auto simp: length_setLaneEnd nth_setLaneEnd_neq)
    qed
  qed
  have B: "startOffset ((out @ [new]) ! i) + duration ((out @ [new]) ! i)
        \<le> startOffset ((out @ [new]) ! j)"
    if "i < j" "j < length (out @ [new])"
       "laneIndex ((out @ [new]) ! i) = laneIndex ((out @ [new]) ! j)" for i j
  proof (cases "j < length out")
    case True
    with that inv show ?thesis
      by (auto simp: laneInv_def out_def nth_append)
  next
    case False
    with that have j: "j = length out" and i: "i < length out" by auto
    then have "out ! i \<in> set out" by simp
    moreover from that j i have "laneIndex (out ! i) = k" by (simp add: nth_append new_def)
    ultimately have "startOffset (out ! i) + duration (out ! i) \<le> s" by (rule free)
    with j i show ?thesis by (simp add: nth_append new_def)
  qed
  have C: "distinct (map laneIndex (filter (\<lambda>l. covers l d) (out @ [new])))" for d
  proof -
    from inv have d0: "distinct (map laneIndex (filter (\<lambda>l. covers l d) out))"
      by (simp add: laneInv_def out_def)
    show ?thesis
    proof (cases "covers new d")
      case False
      with d0 show ?thesis by simp
    next
      case True
      then have sd: "s \<le> d" by (simp add: covers_def new_def)
      have "k \<notin> laneIndex ` set (filter (\<lambda>l. covers l d) out)"
      proof
        assume "k \<in> laneIndex ` set (filter (\<lambda>l. covers l d) out)"
        then obtain l where l: "l \<in> set out" "covers l d" "laneIndex l = k" by auto
        from free[OF l(1) l(3)] l(2) sd show False by (simp add: covers_def)
      qed
      with d0 True show ?thesis by (simp add: new_def)
    qed
  qed
  show ?thesis
    unfolding laneInv_def lanes' out' using A B C by blast
qed

lemma laneInv_step: "laneInv st \<Longrightarrow> laneInv (layoutStep gs ge td b st)"
  by (simp add: layoutStep_cases survives_def laneInv_placeBar)

lemma laneInv_fold: "laneInv st \<Longrightarrow> laneInv (fold (layoutStep gs ge td) bs st)"
  by (induction bs arbitrary: st) (simp_all add: laneInv_step)

lemma laneInv_init: "laneInv \<lparr>laneEndOffsets = [], layoutBookings = []\<rparr>"
  by (simp add: laneInv_def)

lemma overlapAt_le_lanes:
  assumes "laneInv st"
  shows "overlapAt (layoutBookings st) d \<le> length (laneEndOffsets st)"
proof -
  let ?ls = "map laneIndex (filter (\<lambda>l. covers l d) (layoutBookings st))"
  from assms have "distinct ?ls" by (simp add: laneInv_def)
  then have "card (set ?ls) = length ?ls" by (rule distinct_card)
  then have "length ?ls = card (set ?ls)" by simp
  moreover from assms have "set ?ls \<subseteq> {..< length (laneEndOffsets st)}"
    by (auto simp: laneInv_def)
  then have "card (set ?ls) \<le> length (laneEndOffsets st)"
    using card_mono[of "{..< length (laneEndOffsets st)}" "set ?ls"] by simp
  ultimately have "length ?ls \<le> length (laneEndOffsets st)" by simp
  then show ?thesis by (simp add: overlapAt_def)
qed


lemma overlapAt_snoc:
  "overlapAt (out @ [l]) d = overlapAt out d + (if covers l d then 1 else 0)"
  by (simp add: overlapAt_def)

lemma tightInv_placeBar:
  assumes inv: "laneInv st" and tight: "tightInv st m" and ms: "m \<le> s" and se: "s < e"
  shows "tightInv (placeBar st b s e) s"
proof -
  define lanes where "lanes = laneEndOffsets st"
  define out where "out = layoutBookings st"
  define k where "k = findLane lanes s 0"
  define new where "new = \<lparr>booking = b, startOffset = s, duration = e - s, laneIndex = k\<rparr>"
  have lanes': "laneEndOffsets (placeBar st b s e) = setLaneEnd lanes k e"
    and out': "layoutBookings (placeBar st b s e) = out @ [new]"
    by (simp_all add: placeBar_def lanes_def out_def k_def new_def)
  have kle: "k \<le> length lanes" by (simp add: k_def findLane_le)
  have wit: "\<exists>l \<in> set out. laneIndex l = i \<and> startOffset l + duration l = lanes ! i"
    if "i < length lanes" for i
    using tight that by (simp add: tightInv_def lanes_def out_def)
  have starts: "startOffset l \<le> m" if "l \<in> set out" for l
    using tight that by (simp add: tightInv_def out_def)
  have T1: "\<exists>l \<in> set (out @ [new]). laneIndex l = i
        \<and> startOffset l + duration l = setLaneEnd lanes k e ! i"
    if "i < length (setLaneEnd lanes k e)" for i
  proof (cases "i = k")
    case True
    with kle show ?thesis by (auto simp: new_def nth_setLaneEnd_eq)
  next
    case False
    with that kle have i: "i < length lanes"
      by (auto simp: length_setLaneEnd split: if_splits)
    from wit[OF i] False i show ?thesis by (auto simp: nth_setLaneEnd_neq)
  qed
  have T2: "startOffset l \<le> s" if "l \<in> set (out @ [new])" for l
  proof (cases "l = new")
    case True
    then show ?thesis by (simp add: new_def)
  next
    case False
    with that have "l \<in> set out" by simp
    from starts[OF this] ms show ?thesis by simp
  qed
  have T3: "\<exists>d. length (setLaneEnd lanes k e) \<le> overlapAt (out @ [new]) d"
  proof (cases "k < length lanes")
    case True
    from tight obtain d where "length lanes \<le> overlapAt out d"
      by (auto simp: tightInv_def lanes_def out_def)
    with True have "length (setLaneEnd lanes k e) \<le> overlapAt (out @ [new]) d"
      by (simp add: length_setLaneEnd overlapAt_snoc)
    then show ?thesis ..
  next
    case False
    with kle have keq: "k = length lanes" by simp
    have busy: "s < lanes ! i" if "i < length lanes" for i
      using findLane_busy[of 0 i lanes s] that keq by (simp add: k_def)
    let ?cov = "filter (\<lambda>l. covers l s) out"
    have "{..< length lanes} \<subseteq> laneIndex ` set ?cov"
    proof
      fix i assume "i \<in> {..< length lanes}"
      then have i: "i < length lanes" by simp
      from wit[OF i] obtain l where l: "l \<in> set out" "laneIndex l = i"
        "startOffset l + duration l = lanes ! i" by auto
      from starts[OF l(1)] ms busy[OF i] l(3) have "covers l s" by (simp add: covers_def)
      with l show "i \<in> laneIndex ` set ?cov" by auto
    qed
    then have "card {..< length lanes} \<le> card (laneIndex ` set ?cov)"
      by (intro card_mono) auto
    also have "\<dots> \<le> card (set ?cov)" by (rule card_image_le) simp
    also have "\<dots> \<le> length ?cov" by (rule card_length)
    finally have "length lanes \<le> overlapAt out s" by (simp add: overlapAt_def)
    moreover from se have "covers new s" by (simp add: covers_def new_def)
    ultimately have "length (setLaneEnd lanes k e) \<le> overlapAt (out @ [new]) s"
      using keq by (simp add: length_setLaneEnd overlapAt_snoc)
    then show ?thesis ..
  qed
  show ?thesis
    unfolding tightInv_def lanes' out' using T1 T2 T3 by blast
qed

lemma msPerDay_pos: "0 < msPerDay"
  by (simp add: msPerDay_def)

lemma startOffsetOf_mono:
  "checkIn a \<le> checkIn b \<Longrightarrow> startOffsetOf gs a \<le> startOffsetOf gs b"
proof -
  assume "checkIn a \<le> checkIn b"
  then have "max (checkIn a) gs - gs \<le> max (checkIn b) gs - gs" by auto
  then have "(max (checkIn a) gs - gs) div msPerDay \<le> (max (checkIn b) gs - gs) div msPerDay"
    using msPerDay_pos by (rule zdiv_mono1)
  then show ?thesis
    by (simp add: startOffsetOf_def floorDiv_def barStartTime_def max.coboundedI2)
qed

lemma tightInv_fold:
  assumes "sorted (map checkIn bs)" "laneInv st" "tightInv st m"
    "\<forall>b \<in> set bs. m \<le> startOffsetOf gs b"
  shows "\<exists>m'. tightInv (fold (layoutStep gs ge td) bs st) m'"
  using assms
proof (induction bs arbitrary: st m)
  case Nil
  then show ?case by auto
next
  case (Cons b bs)
  have srt: "sorted (map checkIn bs)" using Cons.prems(1) by simp
  have later: "\<forall>b' \<in> set bs. startOffsetOf gs b \<le> startOffsetOf gs b'"
    using Cons.prems(1) by (auto intro: startOffsetOf_mono)
  have mb: "m \<le> startOffsetOf gs b" using Cons.prems(4) by simp
  show ?case
  proof (cases "survives gs ge td b")
    case False
    then have "layoutStep gs ge td b st = st" by (simp add: layoutStep_cases)
    moreover have "\<forall>b' \<in> set bs. m \<le> startOffsetOf gs b'" using Cons.prems(4) by simp
    ultimately show ?thesis
      using Cons.IH[OF srt Cons.prems(2) Cons.prems(3)] by simp
  next
    case True
    let ?st' = "placeBar st b (startOffsetOf gs b) (endOffsetOf gs ge td b)"
    from True have step: "layoutStep gs ge td b st = ?st'" by (simp add: layoutStep_cases)
    from True have se: "startOffsetOf gs b < endOffsetOf gs ge td b" by (simp add: survives_def)
    have "laneInv ?st'" using Cons.prems(2) se by (rule laneInv_placeBar)
    moreover have "tightInv ?st' (startOffsetOf gs b)"
      using Cons.prems(2) Cons.prems(3) mb se by (rule tightInv_placeBar)
    ultimately show ?thesis
      using Cons.IH[OF srt _ _ later] step by simp
  qed
qed

lemma tightInv_init: "tightInv \<lparr>laneEndOffsets = [], layoutBookings = []\<rparr> 0"
  by (simp add: tightInv_def)

lemma startOffsetOf_nonneg: "0 \<le> startOffsetOf gs b"
  by (simp add: startOffsetOf_def)

lemma sorted_roomBookings: "sorted (map checkIn (roomBookings z roomName bs))"
  by (simp add: roomBookings_def)

lemma laneInv_layoutPass: "laneInv (layoutPass z roomName bs winStart winEnd)"
  unfolding layoutPass_def by (rule laneInv_fold) (rule laneInv_init)

lemma tightInv_layoutPass: "\<exists>m. tightInv (layoutPass z roomName bs winStart winEnd) m"
  unfolding layoutPass_def
  by (rule tightInv_fold[OF sorted_roomBookings laneInv_init tightInv_init])
     (simp add: startOffsetOf_nonneg)

text \<open>
  Claim C1. For every booking list, room and window, the number of lanes the layout pass
  uses (the length of \<open>laneEndOffsets\<close>) is the largest number of emitted bookings that
  cover one day offset: no day offset is covered by more bookings than there are lanes,
  and some day offset is covered by exactly that many. The lane indices in use are
  exactly \<open>0, ..., length laneEndOffsets - 1\<close>.
\<close>

theorem lanes_minimal:
  "(\<forall>d. overlapAt (layoutBookings (layoutPass z roomName bs winStart winEnd)) d
          \<le> length (laneEndOffsets (layoutPass z roomName bs winStart winEnd)))
   \<and> (\<exists>d. overlapAt (layoutBookings (layoutPass z roomName bs winStart winEnd)) d
          = length (laneEndOffsets (layoutPass z roomName bs winStart winEnd)))
   \<and> laneIndex ` set (layoutBookings (layoutPass z roomName bs winStart winEnd))
       = {..< length (laneEndOffsets (layoutPass z roomName bs winStart winEnd))}"
proof -
  define R where "R = layoutPass z roomName bs winStart winEnd"
  have inv: "laneInv R" unfolding R_def by (rule laneInv_layoutPass)
  obtain m where tight: "tightInv R m" unfolding R_def using tightInv_layoutPass by blast
  have up: "overlapAt (layoutBookings R) d \<le> length (laneEndOffsets R)" for d
    using inv by (rule overlapAt_le_lanes)
  from tight obtain d where "length (laneEndOffsets R) \<le> overlapAt (layoutBookings R) d"
    by (auto simp: tightInv_def)
  with up[of d] have eq: "overlapAt (layoutBookings R) d = length (laneEndOffsets R)" by simp
  have "laneIndex ` set (layoutBookings R) \<subseteq> {..< length (laneEndOffsets R)}"
    using inv by (auto simp: laneInv_def)
  moreover have "{..< length (laneEndOffsets R)} \<subseteq> laneIndex ` set (layoutBookings R)"
    using tight by (fastforce simp: tightInv_def)
  ultimately have "laneIndex ` set (layoutBookings R) = {..< length (laneEndOffsets R)}"
    by blast
  with up eq show ?thesis unfolding R_def by blast
qed

text \<open>
  Claim C2. Two different emitted bookings with the same \<open>laneIndex\<close> never cover the same
  day offset: their intervals \<open>[startOffset, startOffset + duration)\<close> are disjoint.
\<close>

theorem same_lane_disjoint:
  "\<forall>i j. i < length (layoutBookings (layoutPass z roomName bs winStart winEnd))
       \<and> j < length (layoutBookings (layoutPass z roomName bs winStart winEnd))
       \<and> i \<noteq> j
       \<and> laneIndex (layoutBookings (layoutPass z roomName bs winStart winEnd) ! i)
         = laneIndex (layoutBookings (layoutPass z roomName bs winStart winEnd) ! j)
     \<longrightarrow> (\<forall>d. \<not> (covers (layoutBookings (layoutPass z roomName bs winStart winEnd) ! i) d
                \<and> covers (layoutBookings (layoutPass z roomName bs winStart winEnd) ! j) d))"
proof -
  define out where "out = layoutBookings (layoutPass z roomName bs winStart winEnd)"
  have inv: "laneInv (layoutPass z roomName bs winStart winEnd)"
    by (rule laneInv_layoutPass)
  have ord: "startOffset (out ! i) + duration (out ! i) \<le> startOffset (out ! j)"
    if "i < j" "j < length out" "laneIndex (out ! i) = laneIndex (out ! j)" for i j
    using inv that unfolding laneInv_def out_def by blast
  have "\<not> (covers (out ! i) d \<and> covers (out ! j) d)"
    if "i < length out" "j < length out" "i \<noteq> j" "laneIndex (out ! i) = laneIndex (out ! j)"
    for i j d
  proof (cases "i < j")
    case True
    from ord[OF True that(2) that(4)] show ?thesis by (auto simp: covers_def)
  next
    case False
    with that have "j < i" by simp
    from ord[OF this that(1)] that(4) show ?thesis by (auto simp: covers_def)
  qed
  then show ?thesis unfolding out_def by blast
qed

section \<open>Emitted bookings\<close>

lemma fold_layoutStep_filter:
  "fold (layoutStep gs ge td) (filter (survives gs ge td) bs) st = fold (layoutStep gs ge td) bs st"
  by (induction bs arbitrary: st) (simp_all add: layoutStep_cases)

lemma fold_layoutStep_bookings:
  "map booking (layoutBookings (fold (layoutStep gs ge td) bs st))
     = map booking (layoutBookings st) @ filter (survives gs ge td) bs"
  by (induction bs arbitrary: st) (simp_all add: layoutStep_cases placeBar_def)

lemma layoutPass_bookings:
  "map booking (layoutBookings (layoutPass z r bs ws we))
     = filter (survives (gridStartOf z ws) (gridEndExclusiveOf z we) (totalDaysOf z ws we))
         (roomBookings z r bs)"
  by (simp add: layoutPass_def fold_layoutStep_bookings)

lemma withCheckInOut_orig: "withCheckInOut z b = Some rb \<Longrightarrow> orig rb = b"
  by (auto simp: withCheckInOut_def split: option.splits)

lemma roomCandidates_orig:
  "rb \<in> set (roomCandidates z r bs) \<Longrightarrow> withCheckInOut z (orig rb) = Some rb"
proof -
  assume "rb \<in> set (roomCandidates z r bs)"
  then obtain b where "withCheckInOut z b = Some rb"
    by (auto simp: roomCandidates_def List.map_filter_def)
  with withCheckInOut_orig[OF this] show ?thesis by simp
qed

lemma roomCandidates_append:
  "roomCandidates z r (xs @ ys) = roomCandidates z r xs @ roomCandidates z r ys"
  by (simp add: roomCandidates_def List.map_filter_def)

lemma roomCandidates_Cons:
  "roomCandidates z r (b # bs) =
     (if toLowerCase (room b) = toLowerCase r
      then (case withCheckInOut z b of None \<Rightarrow> [] | Some rb \<Rightarrow> [rb]) else [])
     @ roomCandidates z r bs"
  by (simp add: roomCandidates_def split: option.splits)

lemma layoutPass_filter:
  "layoutPass z r bs ws we =
     fold (layoutStep (gridStartOf z ws) (gridEndExclusiveOf z we) (totalDaysOf z ws we))
       (sort_key checkIn
          (filter (survives (gridStartOf z ws) (gridEndExclusiveOf z we) (totalDaysOf z ws we))
             (roomCandidates z r bs)))
       \<lparr>laneEndOffsets = [], layoutBookings = []\<rparr>"
  unfolding layoutPass_def roomBookings_def
  by (simp only: filter_sort[symmetric] fold_layoutStep_filter)

lemma clippedEmpty_not_survives:
  "clippedEmpty z ws we b \<Longrightarrow> withCheckInOut z b = Some rb
   \<Longrightarrow> \<not> survives (gridStartOf z ws) (gridEndExclusiveOf z we) td rb"
  by (simp add: clippedEmpty_def survives_def)

lemma dropped_same_layout:
  assumes "clippedEmpty z ws we b"
  shows "layoutPass z r (bs1 @ b # bs2) ws we = layoutPass z r (bs1 @ bs2) ws we"
proof -
  let ?P = "survives (gridStartOf z ws) (gridEndExclusiveOf z we) (totalDaysOf z ws we)"
  have "filter ?P (roomCandidates z r [b]) = []"
    using assms clippedEmpty_not_survives[OF assms]
    by (auto simp: roomCandidates_Cons roomCandidates_def split: option.splits)
  then have "filter ?P (roomCandidates z r (bs1 @ b # bs2))
      = filter ?P (roomCandidates z r (bs1 @ bs2))"
    using roomCandidates_append[of z r bs1 "[b] @ bs2"] roomCandidates_append[of z r "[b]" bs2]
      roomCandidates_append[of z r bs1 bs2]
    by simp
  then show ?thesis by (simp only: layoutPass_filter)
qed

lemma emitted_not_clippedEmpty:
  assumes "l \<in> set (layoutBookings (layoutPass z r bs ws we))"
  shows "\<not> clippedEmpty z ws we (orig (booking l))"
proof -
  let ?P = "survives (gridStartOf z ws) (gridEndExclusiveOf z we) (totalDaysOf z ws we)"
  from assms have "booking l \<in> set (map booking (layoutBookings (layoutPass z r bs ws we)))"
    by simp
  then have mem: "booking l \<in> set (roomCandidates z r bs)" and sv: "?P (booking l)"
    by (simp_all add: layoutPass_bookings roomBookings_def)
  from roomCandidates_orig[OF mem] sv show ?thesis
    by (simp add: clippedEmpty_def survives_def)
qed

lemma stable_sort_unique:
  assumes "isStableSortOf f xs ys"
  shows "ys = sort_key f xs"
proof -
  from assms have m: "mset ys = mset xs" and s: "sorted (map f ys)"
    and st: "\<And>k. filter (\<lambda>x. f x = k) ys = filter (\<lambda>x. f x = k) xs"
    by (simp_all add: isStableSortOf_def)
  have "filter (\<lambda>x. f k = f x) ys = filter (\<lambda>x. f k = f x) xs" for k
    using st[of "f k"] by (simp add: eq_commute)
  with m s have "sort_key f xs = ys" by (intro properties_for_sort_key) simp_all
  then show ?thesis by simp
qed

lemma layoutPass_ties:
  "filter (\<lambda>x. checkIn x = k) (map booking (layoutBookings (layoutPass z r bs ws we)))
     = filter (\<lambda>x. checkIn x = k)
         (filter (survives (gridStartOf z ws) (gridEndExclusiveOf z we) (totalDaysOf z ws we))
            (roomCandidates z r bs))"
proof -
  have "map booking (layoutBookings (layoutPass z r bs ws we))
      = sort_key checkIn
          (filter (survives (gridStartOf z ws) (gridEndExclusiveOf z we) (totalDaysOf z ws we))
             (roomCandidates z r bs))"
    by (simp only: layoutPass_bookings roomBookings_def filter_sort)
  then show ?thesis by (simp only: sort_key_stable)
qed

lemma emitted_fold:
  assumes "l \<in> set (layoutBookings (fold (layoutStep gs ge td) bs st))"
  shows "l \<in> set (layoutBookings st)
       \<or> (booking l \<in> set bs \<and> survives gs ge td (booking l)
           \<and> startOffset l = startOffsetOf gs (booking l)
           \<and> startOffset l + duration l = endOffsetOf gs ge td (booking l))"
  using assms
proof (induction bs arbitrary: st)
  case Nil
  then show ?case by simp
next
  case (Cons b bs)
  from Cons.prems have "l \<in> set (layoutBookings (fold (layoutStep gs ge td) bs
      (layoutStep gs ge td b st)))" by simp
  from Cons.IH[OF this] show ?case
  proof
    assume "l \<in> set (layoutBookings (layoutStep gs ge td b st))"
    then show ?thesis
      by (auto simp: layoutStep_cases placeBar_def split: if_splits)
  next
    assume "booking l \<in> set bs \<and> survives gs ge td (booking l)
           \<and> startOffset l = startOffsetOf gs (booking l)
           \<and> startOffset l + duration l = endOffsetOf gs ge td (booking l)"
    then show ?thesis by simp
  qed
qed

lemma emitted_layoutPass:
  assumes "l \<in> set (layoutBookings (layoutPass z r bs ws we))"
  shows "booking l \<in> set (roomCandidates z r bs)
       \<and> survives (gridStartOf z ws) (gridEndExclusiveOf z we) (totalDaysOf z ws we) (booking l)
       \<and> startOffset l = startOffsetOf (gridStartOf z ws) (booking l)
       \<and> startOffset l + duration l
           = endOffsetOf (gridStartOf z ws) (gridEndExclusiveOf z we) (totalDaysOf z ws we)
               (booking l)"
  using emitted_fold[OF assms[unfolded layoutPass_def]] by (simp add: roomBookings_def)

lemma findLane_Nil: "findLane [] s k = k"
  by (subst findLane.simps) simp

lemma findLane_Cons0: "findLane (x # xs) s 0 = (if x > s then findLane (x # xs) s 1 else 0)"
  by (subst findLane.simps) simp

lemma findLane_single1: "findLane [x] s 1 = 1"
  by (subst findLane.simps) simp

lemma findLane_single_Suc: "findLane [x] s (Suc 0) = Suc 0"
  by (subst findLane.simps) simp

lemmas step_eval =
  layoutStep_def barStartTime_def barEndTime_def startOffsetOf_def endOffsetOf_def
  rawEndOffsetOf_def floorDiv_def ceilDiv_def roundDiv_def Let_def findLane_Nil findLane_Cons0
  findLane_single1 findLane_single_Suc setLaneEnd_def

section \<open>Timezones with a fixed offset\<close>

lemma LocalTime_fixed: "LocalTime (fixedZone tz) t = t + tz"
  by (simp add: LocalTime_def fixedZone_def)

lemma toUTC_fixed: "toUTC (fixedZone tz) lt = lt - tz"
  by (simp add: toUTC_def fixedZone_def)

lemma setHoursZero_fixed:
  "setHoursZero (fixedZone tz) t = ((t + tz) div msPerDay) * msPerDay - tz"
  by (simp add: setHoursZero_def LocalTime_fixed toUTC_fixed)

lemma setDatePlus_fixed: "setDatePlus (fixedZone tz) n t = t + n * msPerDay"
  by (simp add: setDatePlus_def LocalTime_fixed toUTC_fixed)

lemma gridEndExclusiveOf_fixed:
  "gridEndExclusiveOf (fixedZone tz) we = setHoursZero (fixedZone tz) we + msPerDay"
  by (simp add: gridEndExclusiveOf_def setDatePlus_fixed)

lemma newDateLocal_eq:
  "newDateLocal (fixedZone tz) y m d = MakeDay (fullYear y) m d * msPerDay - tz"
  by (simp add: newDateLocal_def MakeDate_def MakeTime_def toUTC_fixed)

lemma setHoursZero_within_day:
  assumes "0 \<le> a" "a < msPerDay"
  shows "setHoursZero (fixedZone tz) (k * msPerDay - tz + a) = k * msPerDay - tz"
proof -
  have "(k * msPerDay + a) div msPerDay = k"
    using assms by (simp add: div_pos_pos_trivial)
  then show ?thesis by (simp add: setHoursZero_fixed algebra_simps)
qed

lemma setHoursZero_midnight:
  "setHoursZero (fixedZone tz) (k * msPerDay - tz) = k * msPerDay - tz"
  using setHoursZero_within_day[of 0 tz k] msPerDay_pos by simp

lemma gridStartOf_midnight: "gridStartOf (fixedZone tz) (k * msPerDay - tz) = k * msPerDay - tz"
  by (simp add: gridStartOf_def setHoursZero_midnight)

lemma gridEndExclusiveOf_midnight:
  "gridEndExclusiveOf (fixedZone tz) (k * msPerDay - tz) = (k + 1) * msPerDay - tz"
  unfolding gridEndExclusiveOf_fixed setHoursZero_midnight by (simp add: algebra_simps)

lemma timelineStart_midnight:
  "timelineStart (fixedZone tz) (k * msPerDay - tz) = k * msPerDay - tz"
  by (simp add: timelineStart_def setHoursZero_midnight)

lemma timelineEnd_midnight:
  "timelineEnd (fixedZone tz) (k * msPerDay - tz) = (k + 364) * msPerDay - tz"
  unfolding timelineEnd_def timelineStart_midnight setDatePlus_fixed
  by (simp add: algebra_simps)

lemma normalizeDate_dateAt:
  assumes "0 \<le> a" "a < msPerDay"
  shows "normalizeDate (fixedZone tz) (dateAt (fixedZone tz) y m d a)
       = Some (MakeDay (fullYear y) (m - 1) d * msPerDay - tz)"
  using setHoursZero_within_day[OF assms] by (simp add: dateAt_def newDateLocal_eq)

lemma setHoursZero_mono:
  "a \<le> b \<Longrightarrow> setHoursZero (fixedZone tz) a \<le> setHoursZero (fixedZone tz) b"
proof -
  assume "a \<le> b"
  then have "(a + tz) div msPerDay \<le> (b + tz) div msPerDay"
    using msPerDay_pos by (intro zdiv_mono1) simp_all
  then show ?thesis using msPerDay_pos by (simp add: setHoursZero_fixed)
qed

lemma setHoursZero_next_day:
  assumes "setHoursZero (fixedZone tz) a < setHoursZero (fixedZone tz) b"
  shows "setHoursZero (fixedZone tz) a + msPerDay \<le> setHoursZero (fixedZone tz) b"
proof -
  from assms have "(a + tz) div msPerDay * msPerDay < (b + tz) div msPerDay * msPerDay"
    by (simp add: setHoursZero_fixed)
  then have "(a + tz) div msPerDay < (b + tz) div msPerDay"
    using msPerDay_pos by (simp add: mult_less_cancel_right)
  then have "(a + tz) div msPerDay + 1 \<le> (b + tz) div msPerDay" by simp
  then have "((a + tz) div msPerDay + 1) * msPerDay \<le> (b + tz) div msPerDay * msPerDay"
    using msPerDay_pos by (simp only: mult_le_cancel_right) simp
  then show ?thesis by (simp add: setHoursZero_fixed algebra_simps)
qed

lemma setHoursZero_whole_days:
  "(setHoursZero (fixedZone tz) a - setHoursZero (fixedZone tz) b) mod msPerDay = 0"
proof -
  have "setHoursZero (fixedZone tz) a - setHoursZero (fixedZone tz) b
      = ((a + tz) div msPerDay - (b + tz) div msPerDay) * msPerDay"
    by (simp add: setHoursZero_fixed algebra_simps)
  then show ?thesis by simp
qed

lemma MakeDay_2024_01: "MakeDay (fullYear 2024) 0 d = 19722 + d"
  by (simp add: MakeDay_def fullYear_def daysFromCivil_def)

lemma newDateLocal_2024_01:
  "newDateLocal (fixedZone tz) 2024 0 d = (19722 + d) * msPerDay - tz"
  by (simp add: newDateLocal_eq MakeDay_2024_01)

lemmas grid_eval =
  totalDaysOf_def newDateLocal_2024_01 timelineStart_midnight timelineEnd_midnight
  gridStartOf_midnight gridEndExclusiveOf_midnight

section \<open>Examples of the layout pass\<close>

lemma adjacent_roomBookings:
  assumes "0 \<le> a1" "a1 < msPerDay" "0 \<le> a2" "a2 < msPerDay"
          "0 \<le> a3" "a3 < msPerDay" "0 \<le> a4" "a4 < msPerDay"
  shows "roomBookings (fixedZone tz) ''jason''
       [mkBooking ''A'' ''jason'' (dateAt (fixedZone tz) 2024 1 1 a1)
          (dateAt (fixedZone tz) 2024 1 10 a2),
        mkBooking ''B'' ''jason'' (dateAt (fixedZone tz) 2024 1 10 a3)
          (dateAt (fixedZone tz) 2024 1 15 a4)]
     = [\<lparr>orig = mkBooking ''A'' ''jason'' (dateAt (fixedZone tz) 2024 1 1 a1)
                  (dateAt (fixedZone tz) 2024 1 10 a2),
         checkIn = 19723 * msPerDay - tz, checkOut = 19732 * msPerDay - tz\<rparr>,
        \<lparr>orig = mkBooking ''B'' ''jason'' (dateAt (fixedZone tz) 2024 1 10 a3)
                  (dateAt (fixedZone tz) 2024 1 15 a4),
         checkIn = 19732 * msPerDay - tz, checkOut = 19737 * msPerDay - tz\<rparr>]"
  using assms
  by (simp add: roomBookings_def roomCandidates_def List.map_filter_simps withCheckInOut_def
        mkBooking_def normalizeDate_dateAt MakeDay_2024_01 msPerDay_def)

lemma adjacent_layout:
  assumes "0 \<le> a1" "a1 < msPerDay" "0 \<le> a2" "a2 < msPerDay"
          "0 \<le> a3" "a3 < msPerDay" "0 \<le> a4" "a4 < msPerDay"
  shows "layoutPass (fixedZone tz) ''jason''
       [mkBooking ''A'' ''jason'' (dateAt (fixedZone tz) 2024 1 1 a1)
          (dateAt (fixedZone tz) 2024 1 10 a2),
        mkBooking ''B'' ''jason'' (dateAt (fixedZone tz) 2024 1 10 a3)
          (dateAt (fixedZone tz) 2024 1 15 a4)]
       (timelineStart (fixedZone tz) (newDateLocal (fixedZone tz) 2024 0 1))
       (timelineEnd (fixedZone tz) (newDateLocal (fixedZone tz) 2024 0 1))
     = \<lparr>laneEndOffsets = [14],
        layoutBookings =
          [\<lparr>booking =
              \<lparr>orig = mkBooking ''A'' ''jason'' (dateAt (fixedZone tz) 2024 1 1 a1)
                        (dateAt (fixedZone tz) 2024 1 10 a2),
               checkIn = 19723 * msPerDay - tz, checkOut = 19732 * msPerDay - tz\<rparr>,
            startOffset = 0, duration = 9, laneIndex = 0\<rparr>,
           \<lparr>booking =
              \<lparr>orig = mkBooking ''B'' ''jason'' (dateAt (fixedZone tz) 2024 1 10 a3)
                        (dateAt (fixedZone tz) 2024 1 15 a4),
               checkIn = 19732 * msPerDay - tz, checkOut = 19737 * msPerDay - tz\<rparr>,
            startOffset = 9, duration = 5, laneIndex = 0\<rparr>]\<rparr>"
  unfolding layoutPass_def adjacent_roomBookings[OF assms] grid_eval
  by (simp add: step_eval msPerDay_def)

lemma ex_layout:
  "layoutPass exZone ''jason'' [exA, exB] exStart exEnd
     = \<lparr>laneEndOffsets = [14],
        layoutBookings =
          [\<lparr>booking = \<lparr>orig = exA, checkIn = 19723 * msPerDay - 7200000,
                        checkOut = 19732 * msPerDay - 7200000\<rparr>,
            startOffset = 0, duration = 9, laneIndex = 0\<rparr>,
           \<lparr>booking = \<lparr>orig = exB, checkIn = 19732 * msPerDay - 7200000,
                        checkOut = 19737 * msPerDay - 7200000\<rparr>,
            startOffset = 9, duration = 5, laneIndex = 0\<rparr>]\<rparr>"
proof -
  have h: "(0::int) \<le> 0" "(0::int) < msPerDay" by (simp_all add: msPerDay_def)
  show ?thesis
    unfolding exA_def exB_def exStart_def exEnd_def exZone_def
    by (rule adjacent_layout[OF h h h h])
qed

section \<open>Clipping to the window: results\<close>

lemma floorDiv_bounds:
  assumes "0 < b"
  shows "floorDiv a b * b \<le> a" and "a < (floorDiv a b + 1) * b"
proof -
  have eq: "a div b * b + a mod b = a" by simp
  have m: "0 \<le> a mod b" "a mod b < b" using assms by simp_all
  have d: "(a div b + 1) * b = a div b * b + b" by (simp add: algebra_simps)
  from eq m(1) show "floorDiv a b * b \<le> a" unfolding floorDiv_def by linarith
  from eq m(2) show "a < (floorDiv a b + 1) * b" unfolding floorDiv_def d by linarith
qed

lemma ceilDiv_bounds:
  assumes "0 < b"
  shows "(ceilDiv a b - 1) * b < a" and "a \<le> ceilDiv a b * b"
proof -
  from floorDiv_bounds[OF assms, of "- a"]
  have "(- a) div b * b \<le> - a" "- a < ((- a) div b + 1) * b"
    by (simp_all add: floorDiv_def)
  then show "(ceilDiv a b - 1) * b < a" and "a \<le> ceilDiv a b * b"
    unfolding ceilDiv_def by (simp_all add: algebra_simps)
qed

lemma roundDiv_le_ceilDiv:
  assumes "0 < b"
  shows "roundDiv a b \<le> ceilDiv a b"
proof -
  let ?c = "ceilDiv a b"
  from ceilDiv_bounds(2)[OF assms, of a] have "2 * a + b \<le> b + ?c * (2 * b)"
    by (simp add: algebra_simps)
  then have "(2 * a + b) div (2 * b) \<le> (b + ?c * (2 * b)) div (2 * b)"
    using assms by (intro zdiv_mono1) simp_all
  also have "\<dots> = ?c" using assms by (simp add: div_pos_pos_trivial)
  finally show ?thesis by (simp add: roundDiv_def)
qed

lemma survives_clamped:
  assumes sv: "survives gs ge td b" and td: "td = max 0 (roundDiv (ge - gs) msPerDay)"
  shows "0 \<le> startOffsetOf gs b" and "startOffsetOf gs b < td"
    and "startOffsetOf gs b < endOffsetOf gs ge td b" and "endOffsetOf gs ge td b \<le> td"
    and "startOffsetOf gs b * msPerDay \<le> barStartTime gs b - gs"
    and "barStartTime gs b - gs < (startOffsetOf gs b + 1) * msPerDay"
    and "(endOffsetOf gs ge td b - 1) * msPerDay < barEndTime ge b - gs"
    and "barEndTime ge b - gs \<le> endOffsetOf gs ge td b * msPerDay
         \<or> endOffsetOf gs ge td b = td"
    and "checkIn b \<le> gs \<longrightarrow> startOffsetOf gs b = 0"
    and "ge \<le> checkOut b \<longrightarrow> endOffsetOf gs ge td b = td"
proof -
  let ?s = "startOffsetOf gs b" and ?e = "endOffsetOf gs ge td b"
  let ?raw = "rawEndOffsetOf gs ge b"
  let ?x = "barStartTime gs b - gs"
  from sv have lt: "?s < td" and se: "?s < ?e" by (simp_all add: survives_def)
  show s0: "0 \<le> ?s" by (simp add: startOffsetOf_def)
  show "?s < td" by (rule lt)
  show "?s < ?e" by (rule se)
  have e: "?e = min td ?raw" using se by (auto simp: endOffsetOf_def max_def split: if_splits)
  then show "?e \<le> td" by simp
  have x0: "0 \<le> ?x" by (simp add: barStartTime_def)
  then have "0 \<le> floorDiv ?x msPerDay"
    using msPerDay_pos by (simp add: floorDiv_def pos_imp_zdiv_nonneg_iff)
  then have s: "?s = floorDiv ?x msPerDay" by (simp add: startOffsetOf_def)
  from floorDiv_bounds[OF msPerDay_pos, of ?x]
  show "?s * msPerDay \<le> ?x" and "?x < (?s + 1) * msPerDay" unfolding s by simp_all
  have raw: "(?raw - 1) * msPerDay < barEndTime ge b - gs"
    "barEndTime ge b - gs \<le> ?raw * msPerDay"
    using ceilDiv_bounds[OF msPerDay_pos, of "barEndTime ge b - gs"]
    by (simp_all add: rawEndOffsetOf_def)
  from e have "?e \<le> ?raw" by simp
  then have "(?e - 1) * msPerDay \<le> (?raw - 1) * msPerDay"
    using msPerDay_pos by (simp add: mult_right_mono)
  with raw(1) show "(?e - 1) * msPerDay < barEndTime ge b - gs" by simp
  from e raw(2) show "barEndTime ge b - gs \<le> ?e * msPerDay \<or> ?e = td"
    by (auto simp: min_def split: if_splits)
  show "checkIn b \<le> gs \<longrightarrow> ?s = 0"
    by (simp add: startOffsetOf_def barStartTime_def floorDiv_def max_def)
  show "ge \<le> checkOut b \<longrightarrow> ?e = td"
  proof
    assume "ge \<le> checkOut b"
    then have "?raw = ceilDiv (ge - gs) msPerDay"
      by (simp add: rawEndOffsetOf_def barEndTime_def min_def)
    moreover from lt s0 td have "td = roundDiv (ge - gs) msPerDay" by (simp add: max_def split: if_splits)
    ultimately have "td \<le> ?raw" using roundDiv_le_ceilDiv[OF msPerDay_pos, of "ge - gs"] by simp
    with e show "?e = td" by simp
  qed
qed

lemma clipped_roomBookings:
  assumes "0 \<le> a1" "a1 < msPerDay" "0 \<le> a2" "a2 < msPerDay"
  shows "roomBookings (fixedZone tz) ''jason''
       [mkBooking ''A'' ''jason'' (dateAt (fixedZone tz) 2024 1 1 a1)
          (dateAt (fixedZone tz) 2024 1 5 a2)]
     = [\<lparr>orig = mkBooking ''A'' ''jason'' (dateAt (fixedZone tz) 2024 1 1 a1)
                  (dateAt (fixedZone tz) 2024 1 5 a2),
         checkIn = 19723 * msPerDay - tz, checkOut = 19727 * msPerDay - tz\<rparr>]"
  using assms
  by (simp add: roomBookings_def roomCandidates_def List.map_filter_simps withCheckInOut_def
        mkBooking_def normalizeDate_dateAt MakeDay_2024_01 msPerDay_def)

lemma MakeDay_2024_02: "MakeDay (fullYear 2024) 1 d = 19753 + d"
  by (simp add: MakeDay_def fullYear_def daysFromCivil_def)

lemma overhang_roomBookings:
  assumes "0 \<le> a1" "a1 < msPerDay" "0 \<le> a2" "a2 < msPerDay"
  shows "roomBookings (fixedZone tz) ''jason''
       [mkBooking ''D'' ''jason'' (dateAt (fixedZone tz) 2024 1 20 a1)
          (dateAt (fixedZone tz) 2024 2 10 a2)]
     = [\<lparr>orig = mkBooking ''D'' ''jason'' (dateAt (fixedZone tz) 2024 1 20 a1)
                  (dateAt (fixedZone tz) 2024 2 10 a2),
         checkIn = 19742 * msPerDay - tz, checkOut = 19763 * msPerDay - tz\<rparr>]"
  using assms
  by (simp add: roomBookings_def roomCandidates_def List.map_filter_simps withCheckInOut_def
        mkBooking_def normalizeDate_dateAt MakeDay_2024_01 MakeDay_2024_02 msPerDay_def)

text \<open>
  Claim C4. Every emitted booking is clipped to the window, in every timezone: its start
  offset is the whole number of days from the grid start to its clipped start and lies in
  \<open>0 ..< totalDays\<close>, it is 0 when the booking starts on or before the first window day;
  its end offset \<open>startOffset + duration\<close> is at most \<open>totalDays\<close>, it is the number of
  days, rounded up, from the grid start to its clipped end unless \<open>totalDays\<close> is smaller,
  and it is \<open>totalDays\<close> when the booking ends after the last window day. With a fixed
  timezone offset and whatever the time of day of the dates, a booking from 2024-01-01 to
  2024-01-05 laid out against the window from 2024-01-03 to 2024-01-31 is emitted with
  start offset 0 and duration 2, and a booking from 2024-01-20 to 2024-02-10 with start
  offset 17 and duration 12.
\<close>

theorem clipped_to_window:
  "(\<forall>l \<in> set (layoutBookings (layoutPass z r bs ws we)).
      0 \<le> startOffset l \<and> startOffset l < totalDaysOf z ws we \<and> 1 \<le> duration l
      \<and> startOffset l + duration l \<le> totalDaysOf z ws we
      \<and> startOffset l * msPerDay \<le> barStartTime (gridStartOf z ws) (booking l) - gridStartOf z ws
      \<and> barStartTime (gridStartOf z ws) (booking l) - gridStartOf z ws
          < (startOffset l + 1) * msPerDay
      \<and> (startOffset l + duration l - 1) * msPerDay
          < barEndTime (gridEndExclusiveOf z we) (booking l) - gridStartOf z ws
      \<and> (barEndTime (gridEndExclusiveOf z we) (booking l) - gridStartOf z ws
            \<le> (startOffset l + duration l) * msPerDay
          \<or> startOffset l + duration l = totalDaysOf z ws we)
      \<and> (checkIn (booking l) \<le> gridStartOf z ws \<longrightarrow> startOffset l = 0)
      \<and> (gridEndExclusiveOf z we \<le> checkOut (booking l)
           \<longrightarrow> startOffset l + duration l = totalDaysOf z ws we))
   \<and> (0 \<le> a1 \<and> a1 < msPerDay \<and> 0 \<le> a2 \<and> a2 < msPerDay \<longrightarrow>
        summaryOf (layoutPass (fixedZone tz) ''jason''
          [mkBooking ''A'' ''jason'' (dateAt (fixedZone tz) 2024 1 1 a1)
             (dateAt (fixedZone tz) 2024 1 5 a2)]
          (newDateLocal (fixedZone tz) 2024 0 3) (newDateLocal (fixedZone tz) 2024 0 31))
        = [(''A'', 0, 0, 2)]
        \<and> summaryOf (layoutPass (fixedZone tz) ''jason''
          [mkBooking ''D'' ''jason'' (dateAt (fixedZone tz) 2024 1 20 a1)
             (dateAt (fixedZone tz) 2024 2 10 a2)]
          (newDateLocal (fixedZone tz) 2024 0 3) (newDateLocal (fixedZone tz) 2024 0 31))
        = [(''D'', 0, 17, 12)])"
proof (intro conjI ballI impI)
  fix l assume l: "l \<in> set (layoutBookings (layoutPass z r bs ws we))"
  let ?gs = "gridStartOf z ws" and ?ge = "gridEndExclusiveOf z we" and ?td = "totalDaysOf z ws we"
  from emitted_layoutPass[OF l] have sv: "survives ?gs ?ge ?td (booking l)"
    and s: "startOffset l = startOffsetOf ?gs (booking l)"
    and e: "startOffset l + duration l = endOffsetOf ?gs ?ge ?td (booking l)"
    by simp_all
  have td: "?td = max 0 (roundDiv (?ge - ?gs) msPerDay)" by (simp add: totalDaysOf_def)
  note c = survives_clamped[OF sv td]
  show "0 \<le> startOffset l" using c(1) s by simp
  show "startOffset l < ?td" using c(2) s by simp
  show "1 \<le> duration l" using c(3) s e by simp
  show "startOffset l + duration l \<le> ?td" using c(4) e by simp
  show "startOffset l * msPerDay \<le> barStartTime ?gs (booking l) - ?gs" using c(5) s by simp
  show "barStartTime ?gs (booking l) - ?gs < (startOffset l + 1) * msPerDay"
    using c(6) s by simp
  show "(startOffset l + duration l - 1) * msPerDay < barEndTime ?ge (booking l) - ?gs"
    using c(7) e by simp
  show "barEndTime ?ge (booking l) - ?gs \<le> (startOffset l + duration l) * msPerDay
      \<or> startOffset l + duration l = ?td"
    using c(8) e by simp
  show "startOffset l = 0" if "checkIn (booking l) \<le> ?gs" using c(9) s that by simp
  show "startOffset l + duration l = ?td" if "?ge \<le> checkOut (booking l)"
    using c(10) e that by simp
next
  assume "0 \<le> a1 \<and> a1 < msPerDay \<and> 0 \<le> a2 \<and> a2 < msPerDay"
  then have h: "0 \<le> a1" "a1 < msPerDay" "0 \<le> a2" "a2 < msPerDay" by simp_all
  show "summaryOf (layoutPass (fixedZone tz) ''jason''
          [mkBooking ''A'' ''jason'' (dateAt (fixedZone tz) 2024 1 1 a1)
             (dateAt (fixedZone tz) 2024 1 5 a2)]
          (newDateLocal (fixedZone tz) 2024 0 3) (newDateLocal (fixedZone tz) 2024 0 31))
        = [(''A'', 0, 0, 2)]"
    unfolding layoutPass_def clipped_roomBookings[OF h] grid_eval
    by (simp add: step_eval msPerDay_def summaryOf_def mkBooking_def)
  show "summaryOf (layoutPass (fixedZone tz) ''jason''
          [mkBooking ''D'' ''jason'' (dateAt (fixedZone tz) 2024 1 20 a1)
             (dateAt (fixedZone tz) 2024 2 10 a2)]
          (newDateLocal (fixedZone tz) 2024 0 3) (newDateLocal (fixedZone tz) 2024 0 31))
        = [(''D'', 0, 17, 12)]"
    unfolding layoutPass_def overhang_roomBookings[OF h] grid_eval
    by (simp add: step_eval msPerDay_def summaryOf_def mkBooking_def)
qed

text \<open>
  The theorem at the two example bookings, two hours east of UTC: the booking that starts
  before the window is emitted at offset 0, the one that ends after it ends at
  \<open>totalDays\<close>.
\<close>

theorem clipped_to_window_witness:
  "hd exClipOutA \<in> set exClipOutA
   \<and> checkIn (booking (hd exClipOutA)) \<le> gridStartOf exZone exClipStart
   \<and> startOffset (hd exClipOutA) = 0
   \<and> 1 \<le> duration (hd exClipOutA)
   \<and> hd exClipOutD \<in> set exClipOutD
   \<and> gridEndExclusiveOf exZone exClipEnd \<le> checkOut (booking (hd exClipOutD))
   \<and> startOffset (hd exClipOutD) + duration (hd exClipOutD)
       = totalDaysOf exZone exClipStart exClipEnd
   \<and> (0::int) \<le> 0 \<and> (0::int) < msPerDay
   \<and> summaryOf (layoutPass exZone ''jason'' [exClipA] exClipStart exClipEnd)
       = [(''A'', 0, 0, 2)]
   \<and> summaryOf (layoutPass exZone ''jason'' [exClipD] exClipStart exClipEnd)
       = [(''D'', 0, 17, 12)]"
proof -
  have h0: "0 \<le> (0::int) \<and> (0::int) < msPerDay \<and> 0 \<le> (0::int) \<and> (0::int) < msPerDay"
    by (simp add: msPerDay_def)
  note TA = clipped_to_window[where z = exZone and r = "''jason''" and bs = "[exClipA]"
      and ws = exClipStart and we = exClipEnd and tz = 7200000 and ?a1.0 = 0 and ?a2.0 = 0]
  note TD = clipped_to_window[where z = exZone and r = "''jason''" and bs = "[exClipD]"
      and ws = exClipStart and we = exClipEnd and tz = 7200000 and ?a1.0 = 0 and ?a2.0 = 0]
  from TA h0 have sums:
    "summaryOf (layoutPass exZone ''jason'' [exClipA] exClipStart exClipEnd)
       = [(''A'', 0, 0, 2)]"
    "summaryOf (layoutPass exZone ''jason'' [exClipD] exClipStart exClipEnd)
       = [(''D'', 0, 17, 12)]"
    unfolding exClipA_def exClipD_def exClipStart_def exClipEnd_def exZone_def by blast+
  from sums have ne: "exClipOutA \<noteq> []" "exClipOutD \<noteq> []"
    by (auto simp: summaryOf_def exClipOutA_def exClipOutD_def)
  then have mem: "hd exClipOutA \<in> set exClipOutA" "hd exClipOutD \<in> set exClipOutD"
    by simp_all
  have inA: "checkIn (booking (hd exClipOutA)) \<le> gridStartOf exZone exClipStart"
    by code_simp
  have inD: "gridEndExclusiveOf exZone exClipEnd \<le> checkOut (booking (hd exClipOutD))"
    by code_simp
  from TA mem(1) inA have "startOffset (hd exClipOutA) = 0" "1 \<le> duration (hd exClipOutA)"
    unfolding exClipOutA_def by blast+
  moreover from TD mem(2) inD
  have "startOffset (hd exClipOutD) + duration (hd exClipOutD)
      = totalDaysOf exZone exClipStart exClipEnd"
    unfolding exClipOutD_def by blast
  ultimately show ?thesis using mem inA inD sums h0 by simp
qed

section \<open>Adjacent bookings: results\<close>

lemma ceilDiv_whole: "x mod b = 0 \<Longrightarrow> ceilDiv x b = x div b"
  by (simp add: ceilDiv_def mod_eq_0_iff_dvd dvd_neg_div)

lemma adjacent_no_overlap:
  assumes a: "survives gs ge td a" and b: "survives gs ge td b"
    and adj: "checkOut a = checkIn b" and whole: "(checkIn b - gs) mod msPerDay = 0"
  shows "endOffsetOf gs ge td a \<le> startOffsetOf gs b"
proof -
  let ?c = "checkIn b" and ?q = "(checkIn b - gs) div msPerDay"
  from b have "max ?c gs < min (checkOut b) ge"
    by (simp add: survives_def barStartTime_def barEndTime_def)
  then have cge: "?c < ge" by simp
  from a adj have "max (checkIn a) gs < min ?c ge"
    by (simp add: survives_def barStartTime_def barEndTime_def)
  with cge have lt: "max (checkIn a) gs < ?c" and gsc: "gs < ?c" by simp_all
  from cge adj have "barEndTime ge a = ?c" by (simp add: barEndTime_def)
  then have raw: "rawEndOffsetOf gs ge a = ?q"
    using whole by (simp add: rawEndOffsetOf_def ceilDiv_whole)
  from gsc have sb: "startOffsetOf gs b = max 0 ?q"
    by (simp add: startOffsetOf_def barStartTime_def floorDiv_def max_def)
  from lt have "max (checkIn a) gs - gs \<le> ?c - gs" by simp
  then have "(max (checkIn a) gs - gs) div msPerDay \<le> ?q"
    using msPerDay_pos by (rule zdiv_mono1)
  then have sa: "startOffsetOf gs a \<le> max 0 ?q"
    by (simp add: startOffsetOf_def barStartTime_def floorDiv_def max.coboundedI2)
  have "endOffsetOf gs ge td a \<le> max (startOffsetOf gs a) ?q"
    unfolding endOffsetOf_def raw by (simp add: max.coboundedI2)
  also from sa have "\<dots> \<le> max 0 ?q" by simp
  finally show ?thesis by (simp add: sb)
qed

lemma survives_checkIn_before_checkOut:
  "survives gs ge td a \<Longrightarrow> checkIn a < checkOut a"
  by (simp add: survives_def barStartTime_def barEndTime_def)

lemma two_alone_layout:
  assumes cand: "roomCandidates z r bs = [a, b] \<or> roomCandidates z r bs = [b, a]"
    and adj: "checkOut a = checkIn b"
    and whole: "(checkIn b - gridStartOf z ws) mod msPerDay = 0"
    and a: "survives (gridStartOf z ws) (gridEndExclusiveOf z we) (totalDaysOf z ws we) a"
    and b: "survives (gridStartOf z ws) (gridEndExclusiveOf z we) (totalDaysOf z ws we) b"
  shows "map booking (layoutBookings (layoutPass z r bs ws we)) = [a, b]"
    and "map laneIndex (layoutBookings (layoutPass z r bs ws we)) = [0, 0]"
proof -
  let ?gs = "gridStartOf z ws" and ?ge = "gridEndExclusiveOf z we" and ?td = "totalDaysOf z ws we"
  from survives_checkIn_before_checkOut[OF a] adj have lt: "checkIn a < checkIn b" by simp
  from cand lt have rb: "roomBookings z r bs = [a, b]"
    by (auto simp: roomBookings_def)
  have free: "\<not> startOffsetOf ?gs b < endOffsetOf ?gs ?ge ?td a"
    using adjacent_no_overlap[OF a b adj whole] by simp
  have "layoutPass z r bs ws we
      = \<lparr>laneEndOffsets = [endOffsetOf ?gs ?ge ?td b],
         layoutBookings =
           [\<lparr>booking = a, startOffset = startOffsetOf ?gs a,
             duration = endOffsetOf ?gs ?ge ?td a - startOffsetOf ?gs a, laneIndex = 0\<rparr>,
            \<lparr>booking = b, startOffset = startOffsetOf ?gs b,
             duration = endOffsetOf ?gs ?ge ?td b - startOffsetOf ?gs b, laneIndex = 0\<rparr>]\<rparr>"
    using a b free
    by (simp add: layoutPass_def rb layoutStep_cases placeBar_def findLane_Nil findLane_Cons0
          setLaneEnd_def)
  then show "map booking (layoutBookings (layoutPass z r bs ws we)) = [a, b]"
    and "map laneIndex (layoutBookings (layoutPass z r bs ws we)) = [0, 0]"
    by simp_all
qed

lemma withCheckInOut_checkIn:
  "withCheckInOut z b = Some rb \<Longrightarrow> \<exists>t. checkIn rb = setHoursZero z t"
proof -
  assume h: "withCheckInOut z b = Some rb"
  then obtain ci where ci: "normalizeDate z (startDate b) = Some ci" and "checkIn rb = ci"
    by (auto simp: withCheckInOut_def split: option.splits)
  from ci obtain t where "ci = setHoursZero z t"
    by (rule normalizeDate.elims) auto
  with \<open>checkIn rb = ci\<close> show ?thesis by blast
qed

lemma emitted_whole_days_fixed:
  assumes "l \<in> set (layoutBookings (layoutPass (fixedZone tz) r bs ws we))"
  shows "(checkIn (booking l) - gridStartOf (fixedZone tz) ws) mod msPerDay = 0"
proof -
  from emitted_layoutPass[OF assms]
  have "booking l \<in> set (roomCandidates (fixedZone tz) r bs)" by simp
  from withCheckInOut_checkIn[OF roomCandidates_orig[OF this]]
  obtain t where "checkIn (booking l) = setHoursZero (fixedZone tz) t" by blast
  then show ?thesis by (simp add: gridStartOf_def setHoursZero_whole_days)
qed

lemma overlapping_roomBookings:
  assumes "0 \<le> a1" "a1 < msPerDay" "0 \<le> a2" "a2 < msPerDay"
          "0 \<le> a3" "a3 < msPerDay" "0 \<le> a4" "a4 < msPerDay"
  shows "roomBookings (fixedZone tz) ''jason''
       [mkBooking ''A'' ''jason'' (dateAt (fixedZone tz) 2024 1 1 a1)
          (dateAt (fixedZone tz) 2024 1 10 a2),
        mkBooking ''B'' ''jason'' (dateAt (fixedZone tz) 2024 1 9 a3)
          (dateAt (fixedZone tz) 2024 1 15 a4)]
     = [\<lparr>orig = mkBooking ''A'' ''jason'' (dateAt (fixedZone tz) 2024 1 1 a1)
                  (dateAt (fixedZone tz) 2024 1 10 a2),
         checkIn = 19723 * msPerDay - tz, checkOut = 19732 * msPerDay - tz\<rparr>,
        \<lparr>orig = mkBooking ''B'' ''jason'' (dateAt (fixedZone tz) 2024 1 9 a3)
                  (dateAt (fixedZone tz) 2024 1 15 a4),
         checkIn = 19731 * msPerDay - tz, checkOut = 19737 * msPerDay - tz\<rparr>]"
  using assms
  by (simp add: roomBookings_def roomCandidates_def List.map_filter_simps withCheckInOut_def
        mkBooking_def normalizeDate_dateAt MakeDay_2024_01 msPerDay_def)

text \<open>
  Claim C3, amended. Two emitted bookings where one's check-out day is the other's
  check-in day cover no day offset in common, provided that shared local midnight lies a
  whole number of 24-hour days after the grid start; in a timezone with a fixed UTC offset
  every emitted booking meets that condition, so there the two never overlap. When the two
  are the room's only bookings with both dates and both are emitted, they are emitted in
  order of check-in and both get lane 0. With a fixed UTC offset, whatever the time of day
  of the four dates, and the 365-day window built from 2024-01-01, booking A from
  2024-01-01 to 2024-01-10 and booking B from 2024-01-10 to 2024-01-15 both get lane 0,
  with start offsets 0 and 9 and durations 9 and 5; had B started one day earlier, on
  2024-01-09, it would have been given lane 1.
\<close>

theorem adjacent_share_lane:
  "(\<forall>l1 \<in> set (layoutBookings (layoutPass z r bs ws we)).
      \<forall>l2 \<in> set (layoutBookings (layoutPass z r bs ws we)).
        checkOut (booking l1) = checkIn (booking l2)
        \<and> (checkIn (booking l2) - gridStartOf z ws) mod msPerDay = 0
        \<longrightarrow> startOffset l1 + duration l1 \<le> startOffset l2
            \<and> (\<forall>d. \<not> (covers l1 d \<and> covers l2 d)))
   \<and> (\<forall>l1 \<in> set (layoutBookings (layoutPass (fixedZone tz) r bs ws we)).
      \<forall>l2 \<in> set (layoutBookings (layoutPass (fixedZone tz) r bs ws we)).
        (checkIn (booking l2) - gridStartOf (fixedZone tz) ws) mod msPerDay = 0
        \<and> (checkOut (booking l1) = checkIn (booking l2)
             \<longrightarrow> startOffset l1 + duration l1 \<le> startOffset l2
                 \<and> (\<forall>d. \<not> (covers l1 d \<and> covers l2 d))))
   \<and> ((roomCandidates z r bs = [a, b] \<or> roomCandidates z r bs = [b, a])
       \<and> checkOut a = checkIn b
       \<and> (checkIn b - gridStartOf z ws) mod msPerDay = 0
       \<and> a \<in> booking ` set (layoutBookings (layoutPass z r bs ws we))
       \<and> b \<in> booking ` set (layoutBookings (layoutPass z r bs ws we))
       \<longrightarrow> map booking (layoutBookings (layoutPass z r bs ws we)) = [a, b]
           \<and> map laneIndex (layoutBookings (layoutPass z r bs ws we)) = [0, 0])
   \<and> (0 \<le> a1 \<and> a1 < msPerDay \<and> 0 \<le> a2 \<and> a2 < msPerDay
       \<and> 0 \<le> a3 \<and> a3 < msPerDay \<and> 0 \<le> a4 \<and> a4 < msPerDay \<longrightarrow>
        summaryOf (layoutPass (fixedZone tz) ''jason''
          [mkBooking ''A'' ''jason'' (dateAt (fixedZone tz) 2024 1 1 a1)
             (dateAt (fixedZone tz) 2024 1 10 a2),
           mkBooking ''B'' ''jason'' (dateAt (fixedZone tz) 2024 1 10 a3)
             (dateAt (fixedZone tz) 2024 1 15 a4)]
          (timelineStart (fixedZone tz) (newDateLocal (fixedZone tz) 2024 0 1))
          (timelineEnd (fixedZone tz) (newDateLocal (fixedZone tz) 2024 0 1)))
        = [(''A'', 0, 0, 9), (''B'', 0, 9, 5)]
        \<and> summaryOf (layoutPass (fixedZone tz) ''jason''
          [mkBooking ''A'' ''jason'' (dateAt (fixedZone tz) 2024 1 1 a1)
             (dateAt (fixedZone tz) 2024 1 10 a2),
           mkBooking ''B'' ''jason'' (dateAt (fixedZone tz) 2024 1 9 a3)
             (dateAt (fixedZone tz) 2024 1 15 a4)]
          (timelineStart (fixedZone tz) (newDateLocal (fixedZone tz) 2024 0 1))
          (timelineEnd (fixedZone tz) (newDateLocal (fixedZone tz) 2024 0 1)))
        = [(''A'', 0, 0, 9), (''B'', 1, 8, 6)])"
proof -
  have gen: "startOffset l1 + duration l1 \<le> startOffset l2
      \<and> (\<forall>d. \<not> (covers l1 d \<and> covers l2 d))"
    if l1: "l1 \<in> set (layoutBookings (layoutPass z' r bs ws we))"
      and l2: "l2 \<in> set (layoutBookings (layoutPass z' r bs ws we))"
      and adj: "checkOut (booking l1) = checkIn (booking l2)"
      and whole: "(checkIn (booking l2) - gridStartOf z' ws) mod msPerDay = 0"
    for z' l1 l2
  proof -
    note e1 = emitted_layoutPass[OF l1] and e2 = emitted_layoutPass[OF l2]
    from e1 have s1: "survives (gridStartOf z' ws) (gridEndExclusiveOf z' we)
        (totalDaysOf z' ws we) (booking l1)"
      and o1: "startOffset l1 + duration l1
        = endOffsetOf (gridStartOf z' ws) (gridEndExclusiveOf z' we) (totalDaysOf z' ws we)
            (booking l1)" by blast+
    from e2 have s2: "survives (gridStartOf z' ws) (gridEndExclusiveOf z' we)
        (totalDaysOf z' ws we) (booking l2)"
      and o2: "startOffset l2 = startOffsetOf (gridStartOf z' ws) (booking l2)" by blast+
    from adjacent_no_overlap[OF s1 s2 adj whole] o1 o2
    have le: "startOffset l1 + duration l1 \<le> startOffset l2" by simp
    have "\<not> (covers l1 d \<and> covers l2 d)" for d
      using le by (simp add: covers_def)
    with le show ?thesis by blast
  qed
  have c1: "\<forall>l1 \<in> set (layoutBookings (layoutPass z r bs ws we)).
      \<forall>l2 \<in> set (layoutBookings (layoutPass z r bs ws we)).
        checkOut (booking l1) = checkIn (booking l2)
        \<and> (checkIn (booking l2) - gridStartOf z ws) mod msPerDay = 0
        \<longrightarrow> startOffset l1 + duration l1 \<le> startOffset l2
            \<and> (\<forall>d. \<not> (covers l1 d \<and> covers l2 d))"
  proof (intro ballI impI)
    fix l1 l2
    assume l1: "l1 \<in> set (layoutBookings (layoutPass z r bs ws we))"
      and l2: "l2 \<in> set (layoutBookings (layoutPass z r bs ws we))"
      and h: "checkOut (booking l1) = checkIn (booking l2)
        \<and> (checkIn (booking l2) - gridStartOf z ws) mod msPerDay = 0"
    from gen[OF l1 l2 conjunct1[OF h] conjunct2[OF h]]
    show "startOffset l1 + duration l1 \<le> startOffset l2
        \<and> (\<forall>d. \<not> (covers l1 d \<and> covers l2 d))" .
  qed
  have c2: "\<forall>l1 \<in> set (layoutBookings (layoutPass (fixedZone tz) r bs ws we)).
      \<forall>l2 \<in> set (layoutBookings (layoutPass (fixedZone tz) r bs ws we)).
        (checkIn (booking l2) - gridStartOf (fixedZone tz) ws) mod msPerDay = 0
        \<and> (checkOut (booking l1) = checkIn (booking l2)
             \<longrightarrow> startOffset l1 + duration l1 \<le> startOffset l2
                 \<and> (\<forall>d. \<not> (covers l1 d \<and> covers l2 d)))"
  proof (intro ballI conjI impI)
    fix l1 l2
    assume l1: "l1 \<in> set (layoutBookings (layoutPass (fixedZone tz) r bs ws we))"
      and l2: "l2 \<in> set (layoutBookings (layoutPass (fixedZone tz) r bs ws we))"
    show whole: "(checkIn (booking l2) - gridStartOf (fixedZone tz) ws) mod msPerDay = 0"
      by (rule emitted_whole_days_fixed[OF l2])
    assume adj: "checkOut (booking l1) = checkIn (booking l2)"
    from gen[OF l1 l2 adj whole]
    show "startOffset l1 + duration l1 \<le> startOffset l2"
      and "\<forall>d. \<not> (covers l1 d \<and> covers l2 d)" by blast+
  qed
  have c3: "map booking (layoutBookings (layoutPass z r bs ws we)) = [a, b]
           \<and> map laneIndex (layoutBookings (layoutPass z r bs ws we)) = [0, 0]"
    if h: "(roomCandidates z r bs = [a, b] \<or> roomCandidates z r bs = [b, a])
       \<and> checkOut a = checkIn b
       \<and> (checkIn b - gridStartOf z ws) mod msPerDay = 0
       \<and> a \<in> booking ` set (layoutBookings (layoutPass z r bs ws we))
       \<and> b \<in> booking ` set (layoutBookings (layoutPass z r bs ws we))"
  proof -
    from h obtain la lb where la: "la \<in> set (layoutBookings (layoutPass z r bs ws we))"
      "booking la = a" and lb: "lb \<in> set (layoutBookings (layoutPass z r bs ws we))"
      "booking lb = b" by auto
    from emitted_layoutPass[OF la(1)] la(2)
    have sa: "survives (gridStartOf z ws) (gridEndExclusiveOf z we) (totalDaysOf z ws we) a"
      by simp
    from emitted_layoutPass[OF lb(1)] lb(2)
    have sb: "survives (gridStartOf z ws) (gridEndExclusiveOf z we) (totalDaysOf z ws we) b"
      by simp
    from h have cand: "roomCandidates z r bs = [a, b] \<or> roomCandidates z r bs = [b, a]"
      and adj: "checkOut a = checkIn b"
      and whole: "(checkIn b - gridStartOf z ws) mod msPerDay = 0" by simp_all
    from two_alone_layout[OF cand adj whole sa sb] show ?thesis by simp
  qed
  have c4: "summaryOf (layoutPass (fixedZone tz) ''jason''
          [mkBooking ''A'' ''jason'' (dateAt (fixedZone tz) 2024 1 1 a1)
             (dateAt (fixedZone tz) 2024 1 10 a2),
           mkBooking ''B'' ''jason'' (dateAt (fixedZone tz) 2024 1 10 a3)
             (dateAt (fixedZone tz) 2024 1 15 a4)]
          (timelineStart (fixedZone tz) (newDateLocal (fixedZone tz) 2024 0 1))
          (timelineEnd (fixedZone tz) (newDateLocal (fixedZone tz) 2024 0 1)))
        = [(''A'', 0, 0, 9), (''B'', 0, 9, 5)]
        \<and> summaryOf (layoutPass (fixedZone tz) ''jason''
          [mkBooking ''A'' ''jason'' (dateAt (fixedZone tz) 2024 1 1 a1)
             (dateAt (fixedZone tz) 2024 1 10 a2),
           mkBooking ''B'' ''jason'' (dateAt (fixedZone tz) 2024 1 9 a3)
             (dateAt (fixedZone tz) 2024 1 15 a4)]
          (timelineStart (fixedZone tz) (newDateLocal (fixedZone tz) 2024 0 1))
          (timelineEnd (fixedZone tz) (newDateLocal (fixedZone tz) 2024 0 1)))
        = [(''A'', 0, 0, 9), (''B'', 1, 8, 6)]"
    if h: "0 \<le> a1 \<and> a1 < msPerDay \<and> 0 \<le> a2 \<and> a2 < msPerDay
       \<and> 0 \<le> a3 \<and> a3 < msPerDay \<and> 0 \<le> a4 \<and> a4 < msPerDay"
  proof
    from h have t: "0 \<le> a1" "a1 < msPerDay" "0 \<le> a2" "a2 < msPerDay"
      "0 \<le> a3" "a3 < msPerDay" "0 \<le> a4" "a4 < msPerDay" by simp_all
    show "summaryOf (layoutPass (fixedZone tz) ''jason''
          [mkBooking ''A'' ''jason'' (dateAt (fixedZone tz) 2024 1 1 a1)
             (dateAt (fixedZone tz) 2024 1 10 a2),
           mkBooking ''B'' ''jason'' (dateAt (fixedZone tz) 2024 1 10 a3)
             (dateAt (fixedZone tz) 2024 1 15 a4)]
          (timelineStart (fixedZone tz) (newDateLocal (fixedZone tz) 2024 0 1))
          (timelineEnd (fixedZone tz) (newDateLocal (fixedZone tz) 2024 0 1)))
        = [(''A'', 0, 0, 9), (''B'', 0, 9, 5)]"
      unfolding adjacent_layout[OF t] by (simp add: summaryOf_def mkBooking_def)
    show "summaryOf (layoutPass (fixedZone tz) ''jason''
          [mkBooking ''A'' ''jason'' (dateAt (fixedZone tz) 2024 1 1 a1)
             (dateAt (fixedZone tz) 2024 1 10 a2),
           mkBooking ''B'' ''jason'' (dateAt (fixedZone tz) 2024 1 9 a3)
             (dateAt (fixedZone tz) 2024 1 15 a4)]
          (timelineStart (fixedZone tz) (newDateLocal (fixedZone tz) 2024 0 1))
          (timelineEnd (fixedZone tz) (newDateLocal (fixedZone tz) 2024 0 1)))
        = [(''A'', 0, 0, 9), (''B'', 1, 8, 6)]"
      unfolding layoutPass_def overlapping_roomBookings[OF t] grid_eval
      by (simp add: step_eval msPerDay_def summaryOf_def mkBooking_def)
  qed
  show ?thesis
    by (rule conjI[OF c1 conjI[OF c2 conjI[OF impI[OF c3] impI[OF c4]]]])
qed

text \<open>
  The theorem at the example bookings A and B, two hours east of UTC, with the 365-day
  window built from 2024-01-01.
\<close>

theorem adjacent_share_lane_witness:
  "exOut ! 0 \<in> set exOut \<and> exOut ! 1 \<in> set exOut
   \<and> checkOut (booking (exOut ! 0)) = checkIn (booking (exOut ! 1))
   \<and> (checkIn (booking (exOut ! 1)) - gridStartOf exZone exStart) mod msPerDay = 0
   \<and> startOffset (exOut ! 0) + duration (exOut ! 0) \<le> startOffset (exOut ! 1)
   \<and> roomCandidates exZone ''jason'' [exA, exB] = [booking (exOut ! 0), booking (exOut ! 1)]
   \<and> booking (exOut ! 0) \<in> booking ` set exOut
   \<and> booking (exOut ! 1) \<in> booking ` set exOut
   \<and> map laneIndex exOut = [0, 0]
   \<and> (0::int) \<le> 0 \<and> (0::int) < msPerDay
   \<and> summaryOf (layoutPass exZone ''jason'' [exA, exB] exStart exEnd)
       = [(''A'', 0, 0, 9), (''B'', 0, 9, 5)]"
proof -
  have out: "exOut
     = [\<lparr>booking = \<lparr>orig = exA, checkIn = 19723 * msPerDay - 7200000,
                        checkOut = 19732 * msPerDay - 7200000\<rparr>,
            startOffset = 0, duration = 9, laneIndex = 0\<rparr>,
        \<lparr>booking = \<lparr>orig = exB, checkIn = 19732 * msPerDay - 7200000,
                        checkOut = 19737 * msPerDay - 7200000\<rparr>,
            startOffset = 9, duration = 5, laneIndex = 0\<rparr>]"
    unfolding exOut_def ex_layout by simp
  have mem: "exOut ! 0 \<in> set exOut" "exOut ! 1 \<in> set exOut" unfolding out by simp_all
  have adj: "checkOut (booking (exOut ! 0)) = checkIn (booking (exOut ! 1))"
    unfolding out by simp
  have t: "(0::int) \<le> 0" "(0::int) < msPerDay" by (simp_all add: msPerDay_def)
  have cand: "roomCandidates exZone ''jason'' [exA, exB]
      = [booking (exOut ! 0), booking (exOut ! 1)]"
    unfolding out exA_def exB_def exZone_def using t
    by (simp add: roomCandidates_def List.map_filter_simps withCheckInOut_def
        mkBooking_def normalizeDate_dateAt MakeDay_2024_01 msPerDay_def)
  have img: "booking (exOut ! 0) \<in> booking ` set exOut"
    "booking (exOut ! 1) \<in> booking ` set exOut"
    using mem by blast+
  have h0: "0 \<le> (0::int) \<and> (0::int) < msPerDay \<and> 0 \<le> (0::int) \<and> (0::int) < msPerDay
      \<and> 0 \<le> (0::int) \<and> (0::int) < msPerDay \<and> 0 \<le> (0::int) \<and> (0::int) < msPerDay"
    by (simp add: msPerDay_def)
  note T = adjacent_share_lane[where z = exZone and tz = 7200000 and r = "''jason''"
      and bs = "[exA, exB]" and ws = exStart and we = exEnd
      and a = "booking (exOut ! 0)" and b = "booking (exOut ! 1)"
      and ?a1.0 = 0 and ?a2.0 = 0 and ?a3.0 = 0 and ?a4.0 = 0]
  note T1 = T[THEN conjunct1, folded exOut_def]
  note T2 = T[THEN conjunct2, THEN conjunct1, folded exZone_def exOut_def]
  note T3 = T[THEN conjunct2, THEN conjunct2, THEN conjunct1, folded exOut_def]
  from bspec[OF bspec[OF T2 mem(1)] mem(2)]
  have whole: "(checkIn (booking (exOut ! 1)) - gridStartOf exZone exStart) mod msPerDay = 0"
    by (rule conjunct1)
  from mp[OF bspec[OF bspec[OF T1 mem(1)] mem(2)] conjI[OF adj whole]]
  have le: "startOffset (exOut ! 0) + duration (exOut ! 0) \<le> startOffset (exOut ! 1)"
    by (rule conjunct1)
  from T3 cand adj whole img have lanes: "map laneIndex exOut = [0, 0]"
    by blast
  from T h0 have sum: "summaryOf (layoutPass exZone ''jason'' [exA, exB] exStart exEnd)
       = [(''A'', 0, 0, 9), (''B'', 0, 9, 5)]"
    unfolding exA_def exB_def exStart_def exEnd_def exZone_def by blast
  from mem adj whole le cand img lanes t sum show ?thesis by simp
qed

text \<open>
  The claim as stated fails in two ways. In Europe/Athens, with the 365-day window built
  from 2024-03-01 (before the clocks go forward), booking A from 2024-04-08 to 2024-04-10
  and booking B from 2024-04-10 to 2024-04-12 share the local midnight of 10 April, which
  lies 39 days and 23 hours after the grid start: A's end offset is rounded up to 40, B's
  start offset is rounded down to 39, and B is given lane 1. And two hours east of UTC,
  with a third booking E from 2024-01-01 to 2024-01-03 that is listed before A, A is
  given lane 1 and B lane 0.
\<close>

theorem adjacent_share_lane_counterexample:
  "map (\<lambda>rb. (id_b (orig rb), checkIn rb, checkOut rb)) (roomBookings athens2024 ''jason'' [athA, athB])
     = [(''A'', 1712523600000, 1712696400000), (''B'', 1712696400000, 1712869200000)]
   \<and> gridStartOf athens2024 athStart = 1709244000000
   \<and> summaryOf (layoutPass athens2024 ''jason'' [athA, athB] athStart athEnd)
       = [(''A'', 0, 37, 3), (''B'', 1, 39, 3)]
   \<and> summaryOf (layoutPass exZone ''jason'' [exE, exA, exB] exStart exEnd)
       = [(''E'', 0, 0, 2), (''A'', 1, 0, 9), (''B'', 0, 9, 5)]"
  by code_simp

section \<open>Lane assignment: examples\<close>

text \<open>The two adjacent bookings A and B share lane 0 and cover no common day offset.\<close>

theorem same_lane_disjoint_witness:
  "0 < length exOut \<and> 1 < length exOut \<and> (0::nat) \<noteq> 1
   \<and> laneIndex (exOut ! 0) = laneIndex (exOut ! 1)
   \<and> (\<forall>d. \<not> (covers (exOut ! 0) d \<and> covers (exOut ! 1) d))"
proof -
  have pre: "0 < length exOut \<and> 1 < length exOut \<and> (0::nat) \<noteq> 1
      \<and> laneIndex (exOut ! 0) = laneIndex (exOut ! 1)"
    unfolding exOut_def ex_layout by simp
  from same_lane_disjoint[of exZone "''jason''" "[exA, exB]" exStart exEnd, folded exOut_def]
  have "0 < length exOut \<and> 1 < length exOut \<and> (0::nat) \<noteq> 1
      \<and> laneIndex (exOut ! 0) = laneIndex (exOut ! 1)
      \<longrightarrow> (\<forall>d. \<not> (covers (exOut ! 0) d \<and> covers (exOut ! 1) d))"
    by blast
  with pre show ?thesis by blast
qed

lemma ex_overlap_layout:
  "summaryOf (layoutPass exZone ''jason'' [exA, exB, exC] exStart exEnd)
     = [(''A'', 0, 0, 9), (''C'', 1, 4, 7), (''B'', 0, 9, 5)]
   \<and> laneEndOffsets (layoutPass exZone ''jason'' [exA, exB, exC] exStart exEnd) = [14, 11]"
  by code_simp

lemma ex_overlap_depth:
  "overlapAt (layoutBookings (layoutPass exZone ''jason'' [exA, exB, exC] exStart exEnd)) 4 = 2"
  by code_simp

text \<open>
  The lane count at bookings A, B and C: C overlaps A on day offset 4, two lanes are in
  use, and no day offset is covered by more than two bookings.
\<close>

theorem lanes_minimal_witness:
  "length (laneEndOffsets (layoutPass exZone ''jason'' [exA, exB, exC] exStart exEnd)) = 2
   \<and> overlapAt (layoutBookings (layoutPass exZone ''jason'' [exA, exB, exC] exStart exEnd)) 4 = 2
   \<and> (\<forall>d. overlapAt (layoutBookings (layoutPass exZone ''jason'' [exA, exB, exC] exStart exEnd)) d
          \<le> 2)
   \<and> laneIndex ` set (layoutBookings (layoutPass exZone ''jason'' [exA, exB, exC] exStart exEnd))
       = {..< 2}"
proof -
  have len: "length (laneEndOffsets (layoutPass exZone ''jason'' [exA, exB, exC] exStart exEnd)) = 2"
    using ex_overlap_layout by simp
  from lanes_minimal[of exZone "''jason''" "[exA, exB, exC]" exStart exEnd] ex_overlap_depth
  show ?thesis unfolding len by blast
qed

section \<open>Dropped bookings: results\<close>

lemma normalized_clippedEmpty:
  assumes "startDate b = Some (Date s)" "endDate b = Some (Date e)"
    and "setHoursZero z e \<le> setHoursZero z s \<or> setHoursZero z e \<le> gridStartOf z ws
         \<or> gridEndExclusiveOf z we \<le> setHoursZero z s"
  shows "clippedEmpty z ws we b"
proof -
  have w: "withCheckInOut z b
      = Some \<lparr>orig = b, checkIn = setHoursZero z s, checkOut = setHoursZero z e\<rparr>"
    using assms(1,2) by (simp add: withCheckInOut_def)
  from assms(3)
  have "min (setHoursZero z e) (gridEndExclusiveOf z we)
      \<le> max (setHoursZero z s) (gridStartOf z ws)"
    by auto
  then show ?thesis
    by (simp add: clippedEmpty_def w barEndTime_def barStartTime_def)
qed

lemma outside_clippedEmpty:
  assumes "startDate b = Some (Date s)" "endDate b = Some (Date e)"
    and "e \<le> s \<or> setHoursZero (fixedZone tz) e \<le> setHoursZero (fixedZone tz) ws
         \<or> setHoursZero (fixedZone tz) we < setHoursZero (fixedZone tz) s"
  shows "clippedEmpty (fixedZone tz) ws we b"
proof -
  from assms(3) consider "e \<le> s"
    | "setHoursZero (fixedZone tz) e \<le> setHoursZero (fixedZone tz) ws"
    | "setHoursZero (fixedZone tz) we < setHoursZero (fixedZone tz) s" by blast
  then have "setHoursZero (fixedZone tz) e \<le> setHoursZero (fixedZone tz) s
      \<or> setHoursZero (fixedZone tz) e \<le> gridStartOf (fixedZone tz) ws
      \<or> gridEndExclusiveOf (fixedZone tz) we \<le> setHoursZero (fixedZone tz) s"
  proof cases
    case 1
    from setHoursZero_mono[OF this, of tz] show ?thesis by simp
  next
    case 2
    then show ?thesis by (simp add: gridStartOf_def)
  next
    case 3
    from setHoursZero_next_day[OF this] show ?thesis by (simp add: gridEndExclusiveOf_fixed)
  qed
  with assms(1,2) show ?thesis by (rule normalized_clippedEmpty)
qed

lemma ex_X_hyps:
  "startDate exX = Some (Date 1703023200000) \<and> endDate exX = Some (Date 1703714400000)
   \<and> setHoursZero exZone 1703714400000 \<le> setHoursZero exZone exStart
   \<and> setHoursZero exZone 1703714400000 \<le> gridStartOf exZone exStart"
  by code_simp

text \<open>
  Claim C5. A booking whose clipped interval is empty or inverted is absent from the
  layout output and consumes no lane: the layout pass gives the same result with the
  booking removed from the input, and no emitted booking is that booking. In every
  timezone, a booking whose check-out day is not after its check-in day, one whose
  check-out day is not after the grid start, and one whose check-in day is not before
  the exclusive grid end have such a clipped interval. With a fixed timezone offset, a
  booking with \<open>endDate \<le> startDate\<close>, one whose check-out day is not after the first day
  of the window, and one whose check-in day is after the last day of the window all have
  such a clipped interval. Every emitted booking has a duration of at least one day and a
  non-empty clipped interval.
\<close>

theorem empty_clip_dropped:
  "(clippedEmpty z ws we b \<longrightarrow>
       layoutPass z r (bs1 @ b # bs2) ws we = layoutPass z r (bs1 @ bs2) ws we
       \<and> b \<notin> set (map (\<lambda>l. orig (booking l))
                    (layoutBookings (layoutPass z r (bs1 @ b # bs2) ws we))))
   \<and> (startDate b = Some (Date s) \<and> endDate b = Some (Date e)
        \<and> (setHoursZero z e \<le> setHoursZero z s \<or> setHoursZero z e \<le> gridStartOf z ws
            \<or> gridEndExclusiveOf z we \<le> setHoursZero z s)
      \<longrightarrow> clippedEmpty z ws we b)
   \<and> (startDate b = Some (Date s) \<and> endDate b = Some (Date e)
        \<and> (e \<le> s \<or> setHoursZero (fixedZone tz) e \<le> setHoursZero (fixedZone tz) ws
            \<or> setHoursZero (fixedZone tz) we < setHoursZero (fixedZone tz) s)
      \<longrightarrow> clippedEmpty (fixedZone tz) ws we b)
   \<and> (\<forall>l \<in> set (layoutBookings (layoutPass z r bs ws we)).
         1 \<le> duration l \<and> \<not> clippedEmpty z ws we (orig (booking l)))"
proof (intro conjI impI ballI)
  assume "clippedEmpty z ws we b"
  then show "layoutPass z r (bs1 @ b # bs2) ws we = layoutPass z r (bs1 @ bs2) ws we"
    by (rule dropped_same_layout)
next
  assume c: "clippedEmpty z ws we b"
  show "b \<notin> set (map (\<lambda>l. orig (booking l))
                    (layoutBookings (layoutPass z r (bs1 @ b # bs2) ws we)))"
  proof
    assume "b \<in> set (map (\<lambda>l. orig (booking l))
                    (layoutBookings (layoutPass z r (bs1 @ b # bs2) ws we)))"
    then obtain l where "l \<in> set (layoutBookings (layoutPass z r (bs1 @ b # bs2) ws we))"
      and "orig (booking l) = b" by auto
    with emitted_not_clippedEmpty[of l z r "bs1 @ b # bs2" ws we] c show False by simp
  qed
next
  assume "startDate b = Some (Date s) \<and> endDate b = Some (Date e)
        \<and> (setHoursZero z e \<le> setHoursZero z s \<or> setHoursZero z e \<le> gridStartOf z ws
            \<or> gridEndExclusiveOf z we \<le> setHoursZero z s)"
  then show "clippedEmpty z ws we b" by (blast intro: normalized_clippedEmpty)
next
  assume "startDate b = Some (Date s) \<and> endDate b = Some (Date e)
        \<and> (e \<le> s \<or> setHoursZero (fixedZone tz) e \<le> setHoursZero (fixedZone tz) ws
            \<or> setHoursZero (fixedZone tz) we < setHoursZero (fixedZone tz) s)"
  then show "clippedEmpty (fixedZone tz) ws we b" by (blast intro: outside_clippedEmpty)
next
  fix l assume l: "l \<in> set (layoutBookings (layoutPass z r bs ws we))"
  have "laneInv (layoutPass z r bs ws we)" by (rule laneInv_layoutPass)
  with l have "0 < duration l" by (simp add: laneInv_def)
  then show "1 \<le> duration l" by simp
next
  fix l assume "l \<in> set (layoutBookings (layoutPass z r bs ws we))"
  then show "\<not> clippedEmpty z ws we (orig (booking l))" by (rule emitted_not_clippedEmpty)
qed

text \<open>
  The theorem at booking X, which ends before the window starts, listed between A and B.
\<close>

theorem empty_clip_dropped_witness:
  "clippedEmpty exZone exStart exEnd exX
   \<and> layoutPass exZone ''jason'' ([exA] @ exX # [exB]) exStart exEnd
       = layoutPass exZone ''jason'' ([exA] @ [exB]) exStart exEnd
   \<and> exX \<notin> set (map (\<lambda>l. orig (booking l))
         (layoutBookings (layoutPass exZone ''jason'' ([exA] @ exX # [exB]) exStart exEnd)))
   \<and> startDate exX = Some (Date 1703023200000) \<and> endDate exX = Some (Date 1703714400000)
   \<and> setHoursZero exZone 1703714400000 \<le> setHoursZero exZone exStart
   \<and> setHoursZero exZone 1703714400000 \<le> gridStartOf exZone exStart
   \<and> hd exOut \<in> set exOut
   \<and> 1 \<le> duration (hd exOut)
   \<and> \<not> clippedEmpty exZone exStart exEnd (orig (booking (hd exOut)))"
proof -
  note T = empty_clip_dropped[where z = exZone and tz = 7200000 and ws = exStart
      and we = exEnd and b = exX and r = "''jason''" and ?bs1.0 = "[exA]"
      and ?bs2.0 = "[exB]" and s = 1703023200000 and e = 1703714400000
      and bs = "[exA, exB]", folded exZone_def exOut_def]
  have mem: "hd exOut \<in> set exOut"
    unfolding exOut_def ex_layout by simp
  from T ex_X_hyps have c: "clippedEmpty exZone exStart exEnd exX" by blast
  with T mem ex_X_hyps show ?thesis by blast
qed

section \<open>Determinism: results\<close>

text \<open>
  Claim C8. The layout is a function of the booking list, the room, the window and the
  timezone alone (the day width is never read by the layout pass). Whatever stable sort
  the engine performs, two runs of the loop give the same lanes and the same emitted
  bookings with the same lane index, start offset and duration, namely the result of
  \<open>layoutPass\<close>; the emitted bookings are the surviving candidates in the sorted order,
  and the emitted bookings with one check-in day \<open>k\<close> appear in their input order.
\<close>

theorem layout_deterministic:
  assumes "isStableSortOf checkIn (roomCandidates z r bs) ys1"
    and "isStableSortOf checkIn (roomCandidates z r bs) ys2"
  shows "fold (layoutStep (gridStartOf z ws) (gridEndExclusiveOf z we) (totalDaysOf z ws we))
           ys1 \<lparr>laneEndOffsets = [], layoutBookings = []\<rparr>
         = fold (layoutStep (gridStartOf z ws) (gridEndExclusiveOf z we) (totalDaysOf z ws we))
           ys2 \<lparr>laneEndOffsets = [], layoutBookings = []\<rparr>
       \<and> fold (layoutStep (gridStartOf z ws) (gridEndExclusiveOf z we) (totalDaysOf z ws we))
           ys1 \<lparr>laneEndOffsets = [], layoutBookings = []\<rparr>
         = layoutPass z r bs ws we
       \<and> map booking (layoutBookings (layoutPass z r bs ws we))
         = filter (survives (gridStartOf z ws) (gridEndExclusiveOf z we) (totalDaysOf z ws we))
             ys1
       \<and> filter (\<lambda>x. checkIn x = k) (map booking (layoutBookings (layoutPass z r bs ws we)))
         = filter (\<lambda>x. checkIn x = k)
             (filter (survives (gridStartOf z ws) (gridEndExclusiveOf z we)
                        (totalDaysOf z ws we))
                (roomCandidates z r bs))"
proof -
  have 1: "ys1 = roomBookings z r bs" and 2: "ys2 = roomBookings z r bs"
    using assms by (simp_all add: roomBookings_def stable_sort_unique)
  have "fold (layoutStep (gridStartOf z ws) (gridEndExclusiveOf z we) (totalDaysOf z ws we))
          (roomBookings z r bs) \<lparr>laneEndOffsets = [], layoutBookings = []\<rparr>
        = layoutPass z r bs ws we"
    by (simp add: layoutPass_def)
  then show ?thesis
    unfolding 1 2 using layoutPass_bookings[of z r bs ws we] layoutPass_ties[of k z r bs ws we]
    by simp
qed

lemma ex_candidates:
  "roomCandidates exZone ''jason'' [exB, exA]
     = [\<lparr>orig = exB, checkIn = 19732 * msPerDay - 7200000, checkOut = 19737 * msPerDay - 7200000\<rparr>,
        \<lparr>orig = exA, checkIn = 19723 * msPerDay - 7200000, checkOut = 19732 * msPerDay - 7200000\<rparr>]"
proof -
  have h: "(0::int) \<le> 0" "(0::int) < msPerDay" by (simp_all add: msPerDay_def)
  have "withCheckInOut exZone exA
      = Some \<lparr>orig = exA, checkIn = 19723 * msPerDay - 7200000, checkOut = 19732 * msPerDay - 7200000\<rparr>"
    unfolding exA_def exZone_def
    by (simp add: withCheckInOut_def mkBooking_def normalizeDate_dateAt[OF h] MakeDay_2024_01)
  moreover have "withCheckInOut exZone exB
      = Some \<lparr>orig = exB, checkIn = 19732 * msPerDay - 7200000, checkOut = 19737 * msPerDay - 7200000\<rparr>"
    unfolding exB_def exZone_def
    by (simp add: withCheckInOut_def mkBooking_def normalizeDate_dateAt[OF h] MakeDay_2024_01)
  moreover have "room exA = ''jason''" "room exB = ''jason''"
    by (simp_all add: exA_def exB_def mkBooking_def)
  ultimately show ?thesis by (simp add: roomCandidates_def List.map_filter_simps)
qed

text \<open>
  The theorem at bookings B and A listed in that order: sorted by check-in day they are
  A, B, and the loop run on that list gives the layout of the pass.
\<close>

theorem layout_deterministic_witness:
  "isStableSortOf checkIn (roomCandidates exZone ''jason'' [exB, exA])
     [\<lparr>orig = exA, checkIn = 19723 * msPerDay - 7200000, checkOut = 19732 * msPerDay - 7200000\<rparr>,
      \<lparr>orig = exB, checkIn = 19732 * msPerDay - 7200000, checkOut = 19737 * msPerDay - 7200000\<rparr>]
   \<and> fold (layoutStep (gridStartOf exZone exStart) (gridEndExclusiveOf exZone exEnd)
             (totalDaysOf exZone exStart exEnd))
        [\<lparr>orig = exA, checkIn = 19723 * msPerDay - 7200000, checkOut = 19732 * msPerDay - 7200000\<rparr>,
         \<lparr>orig = exB, checkIn = 19732 * msPerDay - 7200000, checkOut = 19737 * msPerDay - 7200000\<rparr>]
        \<lparr>laneEndOffsets = [], layoutBookings = []\<rparr>
       = layoutPass exZone ''jason'' [exB, exA] exStart exEnd"
proof -
  let ?ys = "[\<lparr>orig = exA, checkIn = 19723 * msPerDay - 7200000, checkOut = 19732 * msPerDay - 7200000\<rparr>,
      \<lparr>orig = exB, checkIn = 19732 * msPerDay - 7200000, checkOut = 19737 * msPerDay - 7200000\<rparr>]"
  have st: "isStableSortOf checkIn (roomCandidates exZone ''jason'' [exB, exA]) ?ys"
    unfolding ex_candidates isStableSortOf_def by (auto simp: msPerDay_def)
  from layout_deterministic[OF st st, of exStart exEnd] st show ?thesis by blast
qed

section \<open>Selection: results\<close>

lemma selectBookingById_replaces:
  "selectedBookingId (selectBookingById i s) = selectedBookingId s
   \<or> (i \<noteq> [] \<and> i \<in> id_b ` set (bookings s)
       \<and> selectedBookingId (selectBookingById i s) = Some i)"
proof (cases "findBookingById s i")
  case None
  then show ?thesis by (simp add: selectBookingById_def)
next
  case (Some b)
  then have "i \<noteq> []" and f: "find (\<lambda>b. id_b b = i) (bookings s) = Some b"
    by (auto simp: findBookingById_def split: if_splits)
  from f have "b \<in> set (bookings s)" "id_b b = i"
    by (auto simp: find_Some_iff)
  with Some \<open>i \<noteq> []\<close> show ?thesis by (auto simp: selectBookingById_def)
qed

lemma filter_key_distinct:
  "distinct (map f xs) \<Longrightarrow> length (filter (\<lambda>x. f x = k) xs) \<le> 1"
proof (induction xs)
  case Nil
  then show ?case by simp
next
  case (Cons x xs)
  show ?case
  proof (cases "f x = k")
    case True
    with Cons.prems have "k \<notin> f ` set xs" by auto
    then have "filter (\<lambda>x. f x = k) xs = []" by (auto simp: filter_empty_conv)
    with True show ?thesis by simp
  next
    case False
    with Cons show ?thesis by simp
  qed
qed

lemma selected_at_most_one:
  assumes "distinct (map id_b bs)"
  shows "length (filter (isSelected s) bs) \<le> 1"
proof (cases "selectedBookingId s")
  case None
  then show ?thesis by (simp add: isSelected_def truthyId_def)
next
  case (Some i)
  have "length (filter (isSelected s) bs) \<le> length (filter (\<lambda>b. id_b b = i) bs)"
    unfolding isSelected_def Some
    by (induction bs) auto
  also have "\<dots> \<le> 1" using assms by (rule filter_key_distinct)
  finally show ?thesis .
qed

text \<open>
  Claim C9. The selection is a single id, and \<open>renderCalendar\<close> (on a page with the
  calendar element) leaves it as it was or clears it, never raising: a selected id that
  is not among the filtered bookings is cleared, so a selection that survives is the id
  of a filtered booking; bookings and filter are untouched. When the ids of the loaded
  bookings are distinct, at most one filtered booking is marked selected.
\<close>

theorem selection_cleared:
  assumes "hasCalendarEl s"
  shows "(selectedBookingId (renderCalendar s) = None
          \<or> selectedBookingId (renderCalendar s) = selectedBookingId s)
       \<and> (truthyId (selectedBookingId s)
            \<and> selectedBookingId s \<notin> set (map (\<lambda>b. Some (id_b b)) (getFilteredBookings s))
          \<longrightarrow> selectedBookingId (renderCalendar s) = None)
       \<and> (truthyId (selectedBookingId (renderCalendar s))
          \<longrightarrow> selectedBookingId (renderCalendar s)
                \<in> set (map (\<lambda>b. Some (id_b b)) (getFilteredBookings (renderCalendar s))))
       \<and> bookings (renderCalendar s) = bookings s \<and> filter_s (renderCalendar s) = filter_s s
       \<and> (distinct (map id_b (bookings s))
          \<longrightarrow> length (filter (isSelected (renderCalendar s))
                        (getFilteredBookings (renderCalendar s))) \<le> 1)"
proof -
  have same: "bookings (renderCalendar s) = bookings s" "filter_s (renderCalendar s) = filter_s s"
    by (simp_all add: renderCalendar_def Let_def)
  then have gf: "getFilteredBookings (renderCalendar s) = getFilteredBookings s"
    by (simp add: getFilteredBookings_def)
  have 1: "selectedBookingId (renderCalendar s) = None
          \<or> selectedBookingId (renderCalendar s) = selectedBookingId s"
    by (simp add: renderCalendar_def Let_def)
  have 2: "selectedBookingId (renderCalendar s) = None"
    if "truthyId (selectedBookingId s)"
       "selectedBookingId s \<notin> set (map (\<lambda>b. Some (id_b b)) (getFilteredBookings s))"
    using that assms by (auto simp: renderCalendar_def Let_def list_ex_iff)
  have 3: "selectedBookingId (renderCalendar s)
                \<in> set (map (\<lambda>b. Some (id_b b)) (getFilteredBookings (renderCalendar s)))"
    if "truthyId (selectedBookingId (renderCalendar s))"
  proof -
    from that have t: "truthyId (selectedBookingId s)"
      and keep: "selectedBookingId (renderCalendar s) = selectedBookingId s"
      using 1 by (auto simp: truthyId_def)
    have "list_ex (\<lambda>b. Some (id_b b) = selectedBookingId s) (getFilteredBookings s)"
    proof (rule ccontr)
      assume "\<not> list_ex (\<lambda>b. Some (id_b b) = selectedBookingId s) (getFilteredBookings s)"
      with t assms have "selectedBookingId (renderCalendar s) = None"
        by (simp add: renderCalendar_def Let_def)
      with that show False by (simp add: truthyId_def)
    qed
    then obtain b where "b \<in> set (getFilteredBookings s)" "Some (id_b b) = selectedBookingId s"
      by (auto simp: list_ex_iff)
    then have "selectedBookingId s \<in> (\<lambda>b. Some (id_b b)) ` set (getFilteredBookings s)"
      by (metis imageI)
    then show ?thesis unfolding gf keep by simp
  qed
  have 4: "length (filter (isSelected (renderCalendar s))
                        (getFilteredBookings (renderCalendar s))) \<le> 1"
    if "distinct (map id_b (bookings s))"
  proof -
    from that have "distinct (map id_b (getFilteredBookings s))"
      by (simp add: getFilteredBookings_def distinct_map_filter)
    then show ?thesis unfolding gf by (rule selected_at_most_one)
  qed
  from 1 2 3 4 same show ?thesis by blast
qed

theorem selection_cleared_witness:
  "hasCalendarEl (exState ''B'')
   \<and> truthyId (selectedBookingId (exState ''B''))
   \<and> selectedBookingId (exState ''B'')
       \<notin> set (map (\<lambda>b. Some (id_b b)) (getFilteredBookings (exState ''B'')))
   \<and> selectedBookingId (renderCalendar (exState ''B'')) = None
   \<and> hasCalendarEl (exState ''A'')
   \<and> truthyId (selectedBookingId (renderCalendar (exState ''A'')))
   \<and> selectedBookingId (renderCalendar (exState ''A''))
       \<in> set (map (\<lambda>b. Some (id_b b)) (getFilteredBookings (renderCalendar (exState ''A''))))
   \<and> distinct (map id_b (bookings (exState ''A'')))
   \<and> length (filter (isSelected (renderCalendar (exState ''A'')))
               (getFilteredBookings (renderCalendar (exState ''A'')))) \<le> 1"
proof -
  have b: "hasCalendarEl (exState ''B'')" "truthyId (selectedBookingId (exState ''B''))"
    "selectedBookingId (exState ''B'')
       \<notin> set (map (\<lambda>b. Some (id_b b)) (getFilteredBookings (exState ''B'')))"
    by (simp_all add: exState_def truthyId_def getFilteredBookings_def exA_def exB_def mkBooking_def)
  have a: "hasCalendarEl (exState ''A'')"
    "truthyId (selectedBookingId (renderCalendar (exState ''A'')))"
    "distinct (map id_b (bookings (exState ''A'')))"
    by (simp_all add: exState_def truthyId_def getFilteredBookings_def exA_def exB_def
          mkBooking_def renderCalendar_def)
  from selection_cleared[OF b(1)] selection_cleared[OF a(1)] a b show ?thesis by blast
qed


section \<open>Date parsing: results\<close>

lemma DateUTC_noon: "DateUTC y m d 12 0 0 = MakeDay (fullYear y) m d * msPerDay + 43200000"
  by (simp add: DateUTC_def MakeDate_def MakeTime_def)

lemma isDateOnly_facts: "isDateOnly s \<Longrightarrow> s \<noteq> [] \<and> hasDatePrefix s"
  by (auto simp: isDateOnly_def hasDatePrefix_def)

lemma parseDate_dateOnly:
  "isDateOnly s \<Longrightarrow> parseDate np (Some s) = Some (Date (dateOnlyDay s * msPerDay + 43200000))"
  using isDateOnly_facts[of s] by (simp add: parseDate_def dateOnlyDay_def DateUTC_noon)

lemma parseIsoDate_dateOnly:
  "isDateOnly s
   \<Longrightarrow> parseIsoDate np (JString s) = Some (Date (dateOnlyDay s * msPerDay + 43200000))"
  using isDateOnly_facts[of s] by (simp add: parseIsoDate_def dateOnlyDay_def DateUTC_noon)

lemma localDay_noon:
  assumes "\<forall>t. - 43200000 \<le> utcOffset z t \<and> utcOffset z t < 43200000"
  shows "localDay z (k * msPerDay + 43200000) = k"
proof -
  define u where "u = utcOffset z (k * msPerDay + 43200000)"
  from assms have "- 43200000 \<le> u" "u < 43200000" by (simp_all add: u_def)
  then have "(k * msPerDay + (43200000 + u)) div msPerDay = k"
    by (simp add: div_pos_pos_trivial msPerDay_def)
  then show ?thesis by (simp add: localDay_def LocalTime_def add.assoc u_def)
qed

lemma isDateOnly_2024_03_15: "isDateOnly ''2024-03-15''"
  by (simp add: isDateOnly_def substring_def isDigit_def)

lemma dateOnlyDay_2024_03_15: "dateOnlyDay ''2024-03-15'' = 19797"
  by (simp add: dateOnlyDay_def substring_def numberOfDigits_def digitVal_def MakeDay_def
        fullYear_def daysFromCivil_def)

lemma civilFromDays_19797: "civilFromDays 19797 = (2024, 3, 15)"
  by code_simp

lemma athens2024_offsets:
  "\<forall>t. - 43200000 \<le> utcOffset athens2024 t \<and> utcOffset athens2024 t < 43200000"
  by (simp add: athens2024_def)

text \<open>
  Claim C6, amended. \<open>Beds24API.parseDate\<close> and \<open>parseIsoDate\<close> turn a date-only string
  into the time value of noon UTC on the day it writes, so in every timezone whose offset
  from UTC is always at least -12 hours and less than +12 hours, fixed or changing with
  the season, the parsed value lies on that day; in particular "2024-03-15" shows as
  15 March 2024 there.
\<close>

theorem date_only_noon_utc:
  assumes "isDateOnly s" "\<forall>t. - 43200000 \<le> utcOffset z t \<and> utcOffset z t < 43200000"
  shows "parseDate np (Some s) = Some (Date (dateOnlyDay s * msPerDay + 43200000))
       \<and> parseIsoDate np (JString s) = Some (Date (dateOnlyDay s * msPerDay + 43200000))
       \<and> localDayOf z (parseDate np (Some s)) = Some (dateOnlyDay s)
       \<and> localDayOf z (parseIsoDate np (JString s)) = Some (dateOnlyDay s)
       \<and> localDateOf z (parseDate np (Some ''2024-03-15'')) = Some (2024, 3, 15)
       \<and> localDateOf z (parseIsoDate np (JString ''2024-03-15'')) = Some (2024, 3, 15)"
  using assms(1) localDay_noon[OF assms(2)]
  by (simp add: parseDate_dateOnly parseIsoDate_dateOnly localDayOf_def localDateOf_def
        localYMD_def isDateOnly_2024_03_15 dateOnlyDay_2024_03_15
        civilFromDays_19797)

text \<open>
  The theorem at "2024-03-15" in Europe/Athens and in the timezone always two hours east
  of UTC.
\<close>

theorem date_only_noon_utc_witness:
  "isDateOnly ''2024-03-15''
   \<and> (\<forall>t. - 43200000 \<le> utcOffset athens2024 t \<and> utcOffset athens2024 t < 43200000)
   \<and> parseDate noNativeParse (Some ''2024-03-15'') = Some (Date 1710504000000)
   \<and> parseIsoDate noNativeParse (JString ''2024-03-15'') = Some (Date 1710504000000)
   \<and> localDayOf athens2024 (parseDate noNativeParse (Some ''2024-03-15'')) = Some 19797
   \<and> localDateOf athens2024 (parseDate noNativeParse (Some ''2024-03-15''))
       = Some (2024, 3, 15)
   \<and> (\<forall>t. - 43200000 \<le> utcOffset (fixedZone 7200000) t
          \<and> utcOffset (fixedZone 7200000) t < 43200000)
   \<and> localDayOf (fixedZone 7200000) (parseDate noNativeParse (Some ''2024-03-15''))
       = Some 19797
   \<and> localDateOf (fixedZone 7200000) (parseDate noNativeParse (Some ''2024-03-15''))
       = Some (2024, 3, 15)"
proof -
  have h: "isDateOnly ''2024-03-15''" by (rule isDateOnly_2024_03_15)
  have f: "\<forall>t. - 43200000 \<le> utcOffset (fixedZone 7200000) t
          \<and> utcOffset (fixedZone 7200000) t < 43200000"
    by (simp add: fixedZone_def)
  note T = date_only_noon_utc[OF h athens2024_offsets, of noNativeParse,
      unfolded dateOnlyDay_2024_03_15]
  note U = date_only_noon_utc[OF h f, of noNativeParse, unfolded dateOnlyDay_2024_03_15]
  have n: "19797 * msPerDay + 43200000 = 1710504000000" by (simp add: msPerDay_def)
  from T U h f athens2024_offsets show ?thesis unfolding n by blast
qed

text \<open>
  The claim as stated fails: thirteen hours east of UTC the dates parsed from
  "2024-03-15" show as 16 March; and \<open>parseICSDate\<close> builds a date-only value at local
  midnight, not at noon UTC, so the value parsed two hours east of UTC shows as 14 March
  in UTC.
\<close>

theorem date_only_rollover_counterexample:
  "localDateOf (fixedZone 46800000) (parseDate noNativeParse (Some ''2024-03-15''))
       = Some (2024, 3, 16)
   \<and> localDateOf (fixedZone 46800000) (parseIsoDate noNativeParse (JString ''2024-03-15''))
       = Some (2024, 3, 16)
   \<and> parseICSDate (fixedZone 7200000) (Some ''20240315'') = Some (Date 1710453600000)
   \<and> localDateOf (fixedZone 0) (parseICSDate (fixedZone 7200000) (Some ''20240315''))
       = Some (2024, 3, 14)"
  by code_simp

end
